theory Spec2Isabelle
  imports Complex_Main "HOL-Library.AList" "HOL-Library.Log_Nat"
begin

section \<open>The StreamDeck configuration API\<close>

text \<open>
  A shallow embedding of \<^verbatim>\<open>src/streamdeck_ui/api.py\<close>. The three module globals
  \<^verbatim>\<open>state\<close>, \<^verbatim>\<open>image_cache\<close> and \<^verbatim>\<open>decks\<close>, the lock and everything
  the module does to the outside (processes, keyboard, device, state file) are fields of
  one record that every function takes and returns. A Python exception is the \<open>Inl\<close>
  branch of the returned sum; the record returned with it holds the mutations made before
  the exception was raised.
\<close>

subsection \<open>Data\<close>

text \<open>
  \<open>Blocked\<close> is not an exception: it stands for a call that never returns because
  it waits for \<^verbatim>\<open>lock\<close>, which is not reentrant and is released by no
  \<^verbatim>\<open>finally\<close>.
\<close>

datatype error = ValueError | KeyError | ZeroDivisionError | IndexError | OSError
  | TransportError | Blocked

text \<open>A native frame and a device handle are opaque to this module.\<close>

type_synonym native_image = nat
type_synonym deck = nat

text \<open>
  A button dictionary. \<open>None\<close> is an absent key; the type annotations of the
  accessors give the field types.
\<close>

record button =
  icon :: "string option"
  text' :: "string option"
  font :: "string option"
  command :: "string option"
  keys :: "string option"
  write' :: "string option"
  brightness_change :: "int option"
  switch_page :: "int option"

text \<open>
  Python dictionaries that the module iterates over are association lists in insertion
  order; \<open>AList.update\<close> overwrites in place or appends, as assignment to a
  dictionary key does.
\<close>

type_synonym buttons_t = "(int \<times> (int \<times> button) list) list"

record deck_state =
  brightness :: "int option"
  page :: "int option"
  buttons :: "buttons_t option"

type_synonym state_t = "(string \<times> deck_state) list"

text \<open>
  An entry of \<^verbatim>\<open>image_cache\<close> is the list \<^verbatim>\<open>[image, fps, next_time, frame]\<close>.
  A Python float is the rational number it denotes; the arithmetic on floats, which rounds,
  is defined below. The key
  \<^verbatim>\<open>f"{deck_id}.{page}.{button_id}"\<close> is the triple it is formatted from (the two
  integers are read back from the right, so the formatting is injective).
\<close>

record cache_entry =
  image :: "native_image list"
  fps :: rat
  next_time :: rat
  frame :: int

type_synonym cache_key = "string \<times> int \<times> int"

datatype effect =
    Popen "string list"
  | KeyPress string
  | KeyRelease string
  | KeyType string
  | DeckSetBrightness deck int
  | DeckSetKeyImage deck int native_image
  | FileWrite string int state_t

record world =
  state :: state_t
  image_cache :: "cache_key \<rightharpoonup> cache_entry"
  decks :: "string \<rightharpoonup> deck"
  lock_held :: bool
  out :: "effect list"

text \<open>
  A state file after \<^verbatim>\<open>json.loads\<close>: object keys are strings.
\<close>

record file_deck =
  file_brightness :: "int option"
  file_page :: "int option"
  file_buttons :: "(string \<times> (string \<times> button) list) list option"

record config_file =
  streamdeck_ui_version :: "int option"
  file_state :: "(string \<times> file_deck) list option"

text \<open>
  What the module imports and calls but does not define: the constants of
  \<^verbatim>\<open>streamdeck_ui.config\<close>, reading and decoding a file, Python's \<^verbatim>\<open>int\<close> on a
  string, the image work of \<^verbatim>\<open>_render_key_image\<close>, and whether a process launch, a
  key injection, a device call or a file write succeeds.
\<close>

record env =
  CONFIG_FILE_VERSION :: int
  STATE_FILE :: string
  DEFAULT_FONT :: string
  read_json :: "string \<Rightarrow> error + config_file"
  to_int :: "string \<Rightarrow> int option"
  key_image :: "deck \<Rightarrow> string \<Rightarrow> string \<Rightarrow> string \<Rightarrow> error + (native_image list \<times> rat)"
  popen_ok :: "string list \<Rightarrow> bool"
  key_ok :: "string \<Rightarrow> bool"
  type_ok :: "string \<Rightarrow> bool"
  deck_ok :: "deck \<Rightarrow> bool"
  write_ok :: "string \<Rightarrow> bool"

type_synonym 'a result = "(error + 'a) \<times> world"

definition seq :: "'a result \<Rightarrow> ('a \<Rightarrow> world \<Rightarrow> 'b result) \<Rightarrow> 'b result" where
  "seq m f = (case m of (Inl e, w) \<Rightarrow> (Inl e, w) | (Inr x, w) \<Rightarrow> f x w)"

subsection \<open>Float arithmetic\<close>

text \<open>
  Python's \<^verbatim>\<open>float\<close> is the IEEE 754 double: a significand of 53 bits, subnormal
  numbers from the exponent -1074 on, and every operation rounded to the nearest double,
  ties to the even significand. \<open>binade x\<close> is the floor of the binary logarithm of
  \<open>\<bar>x\<bar>\<close>. Results beyond the largest double (infinities) are not represented.
\<close>

definition binade :: "rat \<Rightarrow> int" where
  "binade x =
     (let (p, q) = quotient_of x; d = bitlen \<bar>p\<bar> - bitlen q
      in if (if 0 \<le> d then q * 2 ^ nat d \<le> \<bar>p\<bar> else q \<le> \<bar>p\<bar> * 2 ^ nat (- d))
         then d else d - 1)"

definition scale2 :: "rat \<Rightarrow> int \<Rightarrow> rat" where
  "scale2 x e = (if 0 \<le> e then x * 2 ^ nat e else x / 2 ^ nat (- e))"

definition round_half_even :: "rat \<Rightarrow> int" where
  "round_half_even m =
     (let f = \<lfloor>m\<rfloor>; r = m - of_int f
      in if r < 1 / 2 then f else if 1 / 2 < r then f + 1 else if even f then f else f + 1)"

definition round_double :: "rat \<Rightarrow> rat" where
  "round_double x =
     (if x = 0 then 0
      else let e = max (binade x - 52) (- 1074)
           in scale2 (of_int (round_half_even (scale2 x (- e)))) e)"

text \<open>
  \<^verbatim>\<open>1000/fps\<close> and \<^verbatim>\<open>current_time + x\<close>, where the integer
  \<^verbatim>\<open>current_time\<close> is first converted to a float.
\<close>

definition float_of_int :: "int \<Rightarrow> rat" where
  "float_of_int n = round_double (of_int n)"

definition float_div :: "rat \<Rightarrow> rat \<Rightarrow> rat" where
  "float_div x y = round_double (x / y)"

definition float_add :: "rat \<Rightarrow> rat \<Rightarrow> rat" where
  "float_add x y = round_double (x + y)"

subsection \<open>Persistence\<close>

definition export_config :: "env \<Rightarrow> string \<Rightarrow> world \<Rightarrow> unit result" where
  "export_config ev output_file w =
     (if write_ok ev output_file
      then (Inr (), w\<lparr>out := out w @ [FileWrite output_file (CONFIG_FILE_VERSION ev) (state w)]\<rparr>)
      else (Inl OSError, w))"

definition save_state :: "env \<Rightarrow> world \<Rightarrow> unit result" where
  "save_state ev w = export_config ev (STATE_FILE ev) w"

subsection \<open>The button dictionary of a key\<close>

definition empty_deck :: deck_state where
  "empty_deck = \<lparr>brightness = None, page = None, buttons = None\<rparr>"

definition empty_button :: button where
  "empty_button = \<lparr>icon = None, text' = None, font = None, command = None, keys = None,
     write' = None, brightness_change = None, switch_page = None\<rparr>"

text \<open>\<^verbatim>\<open>d.get(k, default)\<close> on an association list and on an optional field.\<close>

definition get_or :: "('k \<times> 'v) list \<Rightarrow> 'k \<Rightarrow> 'v \<Rightarrow> 'v" where
  "get_or al k d = (case map_of al k of None \<Rightarrow> d | Some v \<Rightarrow> v)"

definition field_or :: "'v option \<Rightarrow> 'v \<Rightarrow> 'v" where
  "field_or f d = (case f of None \<Rightarrow> d | Some v \<Rightarrow> v)"

text \<open>
  \<^verbatim>\<open>_button_state\<close> returns a reference to the button dictionary, creating with
  \<^verbatim>\<open>setdefault\<close> every level that is missing. \<open>button_state_upd f\<close> is the state
  after that call when the caller then changes the returned dictionary by \<open>f\<close>;
  \<open>button_state\<close> is the call itself (dictionary returned, levels created).
\<close>

definition button_of :: "state_t \<Rightarrow> string \<Rightarrow> int \<Rightarrow> int \<Rightarrow> button" where
  "button_of st deck_id pg btn =
     get_or (get_or (field_or (buttons (get_or st deck_id empty_deck)) []) pg []) btn empty_button"

definition button_state_upd ::
    "string \<Rightarrow> int \<Rightarrow> int \<Rightarrow> (button \<Rightarrow> button) \<Rightarrow> state_t \<Rightarrow> state_t" where
  "button_state_upd deck_id pg btn f st =
     (let ds = get_or st deck_id empty_deck;
          bs = field_or (buttons ds) [];
          buttons_state = get_or bs pg []
      in AList.update deck_id
           (ds\<lparr>buttons := Some (AList.update pg
              (AList.update btn (f (button_of st deck_id pg btn)) buttons_state) bs)\<rparr>)
           st)"

definition lookup_button :: "state_t \<Rightarrow> string \<Rightarrow> int \<Rightarrow> int \<Rightarrow> button option" where
  "lookup_button st deck_id pg btn =
     (case map_of st deck_id of None \<Rightarrow> None
      | Some ds \<Rightarrow> (case buttons ds of None \<Rightarrow> None
          | Some bs \<Rightarrow> (case map_of bs pg of None \<Rightarrow> None
              | Some buttons_state \<Rightarrow> map_of buttons_state btn)))"

definition button_state :: "string \<Rightarrow> int \<Rightarrow> int \<Rightarrow> world \<Rightarrow> button \<times> world" where
  "button_state deck_id pg btn w =
     (button_of (state w) deck_id pg btn,
      w\<lparr>state := button_state_upd deck_id pg btn (\<lambda>b. b) (state w)\<rparr>)"

subsection \<open>Rendering\<close>

text \<open>
  \<^verbatim>\<open>_render_key_image(deck, icon="", text="", font=DEFAULT_FONT, **kwargs)\<close> is called
  with the button dictionary as keyword arguments. Its body is image work on the icon file,
  the text and the font; the other keys of the dictionary fall into \<^verbatim>\<open>kwargs\<close>
  and are not read.
\<close>

definition render_key_image ::
    "env \<Rightarrow> deck \<Rightarrow> button \<Rightarrow> error + (native_image list \<times> rat)" where
  "render_key_image ev dk button_settings =
     key_image ev dk (field_or (icon button_settings) [])
       (field_or (text' button_settings) []) (field_or (font button_settings) (DEFAULT_FONT ev))"

definition get_page :: "state_t \<Rightarrow> string \<Rightarrow> int" where
  "get_page st deck_id = field_or (page (get_or st deck_id empty_deck)) 0"

text \<open>\<^verbatim>\<open>deck_state.get("buttons", {}).get(page, {}).items()\<close>\<close>

definition page_items :: "deck_state \<Rightarrow> int \<Rightarrow> (int \<times> button) list" where
  "page_items ds pg = get_or (field_or (buttons ds) []) pg []"

text \<open>The list \<^verbatim>\<open>[image, fps, 0.0, 0]\<close> that \<^verbatim>\<open>render\<close> stores.\<close>

definition fresh_entry :: "native_image list \<times> rat \<Rightarrow> cache_entry" where
  "fresh_entry r = \<lparr>image = fst r, fps = snd r, next_time = 0, frame = 0\<rparr>"

text \<open>The body of the inner loop of \<^verbatim>\<open>render\<close> (lines 323 to 330), for one button.\<close>

definition render_button ::
    "env \<Rightarrow> deck \<Rightarrow> string \<Rightarrow> int \<Rightarrow> int \<Rightarrow> button \<Rightarrow> world \<Rightarrow> unit result" where
  "render_button ev dk deck_id pg button_id button_settings w =
     (let key = (deck_id, pg, button_id) in
      case image_cache w key of
        None \<Rightarrow>
          (case render_key_image ev dk button_settings of
             Inl e \<Rightarrow> (Inl e, w)
           | Inr r \<Rightarrow> (Inr (), w\<lparr>image_cache := (image_cache w)(key \<mapsto> fresh_entry r)\<rparr>))
      | Some e \<Rightarrow>
          (Inr (), w\<lparr>image_cache := (image_cache w)(key \<mapsto> fresh_entry (image e, fps e))\<rparr>))"

fun render_buttons ::
    "env \<Rightarrow> deck \<Rightarrow> string \<Rightarrow> int \<Rightarrow> (int \<times> button) list \<Rightarrow> world \<Rightarrow> unit result" where
  "render_buttons ev dk deck_id pg [] w = (Inr (), w)"
| "render_buttons ev dk deck_id pg ((button_id, button_settings) # rest) w =
     seq (render_button ev dk deck_id pg button_id button_settings w)
       (\<lambda>_. render_buttons ev dk deck_id pg rest)"

fun render_decks :: "env \<Rightarrow> (string \<times> deck_state) list \<Rightarrow> world \<Rightarrow> unit result" where
  "render_decks ev [] w = (Inr (), w)"
| "render_decks ev ((deck_id, ds) # rest) w =
     (case decks w deck_id of
        None \<Rightarrow> render_decks ev rest w
      | Some dk \<Rightarrow>
          seq (render_buttons ev dk deck_id (get_page (state w) deck_id)
                 (page_items ds (get_page (state w) deck_id)) w)
            (\<lambda>_. render_decks ev rest))"

text \<open>
  \<^verbatim>\<open>render\<close> takes the lock, scans, releases the lock. An exception in the scan leaves
  the lock held.
\<close>

definition render :: "env \<Rightarrow> world \<Rightarrow> unit result" where
  "render ev w =
     (if lock_held w then (Inl Blocked, w)
      else seq (render_decks ev (state w) (w\<lparr>lock_held := True\<rparr>))
             (\<lambda>_ w'. (Inr (), w'\<lparr>lock_held := False\<rparr>)))"

subsection \<open>The render thread\<close>

text \<open>Python's \<^verbatim>\<open>xs[i]\<close>: a negative index counts from the end.\<close>

definition py_index :: "'a list \<Rightarrow> int \<Rightarrow> 'a option" where
  "py_index xs i =
     (if 0 \<le> i \<and> i < int (length xs) then Some (xs ! nat i)
      else if - int (length xs) \<le> i \<and> i < 0 then Some (xs ! nat (int (length xs) + i))
      else None)"

definition set_key_image :: "env \<Rightarrow> deck \<Rightarrow> int \<Rightarrow> native_image \<Rightarrow> world \<Rightarrow> unit result" where
  "set_key_image ev dk button_id img w =
     (if deck_ok ev dk then (Inr (), w\<lparr>out := out w @ [DeckSetKeyImage dk button_id img]\<rparr>)
      else (Inl TransportError, w))"

text \<open>
  Lines 301 and 302, and 305 and 306: store the entry with the frame index advanced, then
  draw the frame at the old index.
\<close>

definition advance_and_draw ::
    "env \<Rightarrow> deck \<Rightarrow> cache_key \<Rightarrow> int \<Rightarrow> cache_entry \<Rightarrow> rat \<Rightarrow> world \<Rightarrow> unit result" where
  "advance_and_draw ev dk key button_id e nt w =
     (if length (image e) = 0 then (Inl ZeroDivisionError, w)
      else
        let w' = w\<lparr>image_cache := (image_cache w)
                   (key \<mapsto> \<lparr>image = image e, fps = fps e, next_time = nt,
                             frame = (frame e + 1) mod int (length (image e))\<rparr>)\<rparr>
        in case py_index (image e) (frame e) of
             None \<Rightarrow> (Inl IndexError, w')
           | Some img \<Rightarrow> set_key_image ev dk button_id img w')"

text \<open>The body of the inner loop of \<^verbatim>\<open>render_thread\<close> (lines 292 to 306), for one button.\<close>

definition draw_button ::
    "env \<Rightarrow> int \<Rightarrow> deck \<Rightarrow> string \<Rightarrow> int \<Rightarrow> int \<Rightarrow> world \<Rightarrow> unit result" where
  "draw_button ev current_time dk deck_id pg button_id w =
     (let key = (deck_id, pg, button_id) in
      case image_cache w key of
        None \<Rightarrow> (Inr (), w)
      | Some e \<Rightarrow>
          if fps e \<noteq> 0 \<and> of_int current_time \<ge> next_time e
          then advance_and_draw ev dk key button_id e
                 (float_add (float_of_int current_time) (float_div 1000 (fps e))) w
          else if fps e = 0 \<and> next_time e = 0
          then advance_and_draw ev dk key button_id e (- 1) w
          else (Inr (), w))"

fun draw_buttons ::
    "env \<Rightarrow> int \<Rightarrow> deck \<Rightarrow> string \<Rightarrow> int \<Rightarrow> (int \<times> button) list \<Rightarrow> world \<Rightarrow> unit result" where
  "draw_buttons ev current_time dk deck_id pg [] w = (Inr (), w)"
| "draw_buttons ev current_time dk deck_id pg ((button_id, button_settings) # rest) w =
     seq (draw_button ev current_time dk deck_id pg button_id w)
       (\<lambda>_. draw_buttons ev current_time dk deck_id pg rest)"

fun draw_decks :: "env \<Rightarrow> int \<Rightarrow> (string \<times> deck_state) list \<Rightarrow> world \<Rightarrow> unit result" where
  "draw_decks ev current_time [] w = (Inr (), w)"
| "draw_decks ev current_time ((deck_id, ds) # rest) w =
     (case decks w deck_id of
        None \<Rightarrow> draw_decks ev current_time rest w
      | Some dk \<Rightarrow>
          seq (draw_buttons ev current_time dk deck_id (get_page (state w) deck_id)
                 (page_items ds (get_page (state w) deck_id)) w)
            (\<lambda>_. draw_decks ev current_time rest))"

text \<open>
  One iteration of the loop of \<^verbatim>\<open>render_thread\<close>, with the clock reading
  \<^verbatim>\<open>round(time.monotonic() * 1000)\<close> as argument.
\<close>

definition render_thread_tick :: "env \<Rightarrow> int \<Rightarrow> world \<Rightarrow> unit result" where
  "render_thread_tick ev current_time w =
     (if lock_held w then (Inl Blocked, w)
      else seq (draw_decks ev current_time (state w) (w\<lparr>lock_held := True\<rparr>))
             (\<lambda>_ w'. (Inr (), w'\<lparr>lock_held := False\<rparr>)))"

text \<open>
  The loop itself runs until the thread is told to stop; here it runs over the clock
  readings of its successive iterations, and an exception ends it as it ends the thread.
\<close>

fun render_thread :: "env \<Rightarrow> int list \<Rightarrow> world \<Rightarrow> unit result" where
  "render_thread ev [] w = (Inr (), w)"
| "render_thread ev (current_time # ts) w =
     seq (render_thread_tick ev current_time w) (\<lambda>_. render_thread ev ts)"

subsection \<open>Button accessors\<close>

definition set_button_text :: "env \<Rightarrow> string \<Rightarrow> int \<Rightarrow> int \<Rightarrow> string \<Rightarrow> world \<Rightarrow> unit result" where
  "set_button_text ev deck_id pg btn v w =
     seq (render ev
            (w\<lparr>state := button_state_upd deck_id pg btn (\<lambda>b. b\<lparr>text' := Some v\<rparr>) (state w),
               image_cache := (image_cache w)((deck_id, pg, btn) := None)\<rparr>))
       (\<lambda>_. save_state ev)"

definition get_button_text :: "string \<Rightarrow> int \<Rightarrow> int \<Rightarrow> world \<Rightarrow> string \<times> world" where
  "get_button_text deck_id pg btn w =
     (case button_state deck_id pg btn w of (b, w') \<Rightarrow> (field_or (text' b) [], w'))"

definition set_button_icon :: "env \<Rightarrow> string \<Rightarrow> int \<Rightarrow> int \<Rightarrow> string \<Rightarrow> world \<Rightarrow> unit result" where
  "set_button_icon ev deck_id pg btn v w =
     seq (render ev
            (w\<lparr>state := button_state_upd deck_id pg btn (\<lambda>b. b\<lparr>icon := Some v\<rparr>) (state w),
               image_cache := (image_cache w)((deck_id, pg, btn) := None)\<rparr>))
       (\<lambda>_. save_state ev)"

definition get_button_icon :: "string \<Rightarrow> int \<Rightarrow> int \<Rightarrow> world \<Rightarrow> string \<times> world" where
  "get_button_icon deck_id pg btn w =
     (case button_state deck_id pg btn w of (b, w') \<Rightarrow> (field_or (icon b) [], w'))"

definition set_button_change_brightness ::
    "env \<Rightarrow> string \<Rightarrow> int \<Rightarrow> int \<Rightarrow> int \<Rightarrow> world \<Rightarrow> unit result" where
  "set_button_change_brightness ev deck_id pg btn amount w =
     seq (render ev
            (w\<lparr>state := button_state_upd deck_id pg btn
                          (\<lambda>b. b\<lparr>brightness_change := Some amount\<rparr>) (state w)\<rparr>))
       (\<lambda>_. save_state ev)"

definition get_button_change_brightness :: "string \<Rightarrow> int \<Rightarrow> int \<Rightarrow> world \<Rightarrow> int \<times> world" where
  "get_button_change_brightness deck_id pg btn w =
     (case button_state deck_id pg btn w of (b, w') \<Rightarrow> (field_or (brightness_change b) 0, w'))"

definition set_button_command ::
    "env \<Rightarrow> string \<Rightarrow> int \<Rightarrow> int \<Rightarrow> string \<Rightarrow> world \<Rightarrow> unit result" where
  "set_button_command ev deck_id pg btn v w =
     save_state ev
       (w\<lparr>state := button_state_upd deck_id pg btn (\<lambda>b. b\<lparr>command := Some v\<rparr>) (state w)\<rparr>)"

definition get_button_command :: "string \<Rightarrow> int \<Rightarrow> int \<Rightarrow> world \<Rightarrow> string \<times> world" where
  "get_button_command deck_id pg btn w =
     (case button_state deck_id pg btn w of (b, w') \<Rightarrow> (field_or (command b) [], w'))"

definition set_button_switch_page ::
    "env \<Rightarrow> string \<Rightarrow> int \<Rightarrow> int \<Rightarrow> int \<Rightarrow> world \<Rightarrow> unit result" where
  "set_button_switch_page ev deck_id pg btn v w =
     save_state ev
       (w\<lparr>state := button_state_upd deck_id pg btn (\<lambda>b. b\<lparr>switch_page := Some v\<rparr>) (state w)\<rparr>)"

definition get_button_switch_page :: "string \<Rightarrow> int \<Rightarrow> int \<Rightarrow> world \<Rightarrow> int \<times> world" where
  "get_button_switch_page deck_id pg btn w =
     (case button_state deck_id pg btn w of (b, w') \<Rightarrow> (field_or (switch_page b) 0, w'))"

definition set_button_keys :: "env \<Rightarrow> string \<Rightarrow> int \<Rightarrow> int \<Rightarrow> string \<Rightarrow> world \<Rightarrow> unit result" where
  "set_button_keys ev deck_id pg btn v w =
     save_state ev
       (w\<lparr>state := button_state_upd deck_id pg btn (\<lambda>b. b\<lparr>keys := Some v\<rparr>) (state w)\<rparr>)"

definition get_button_keys :: "string \<Rightarrow> int \<Rightarrow> int \<Rightarrow> world \<Rightarrow> string \<times> world" where
  "get_button_keys deck_id pg btn w =
     (case button_state deck_id pg btn w of (b, w') \<Rightarrow> (field_or (keys b) [], w'))"

definition set_button_write :: "env \<Rightarrow> string \<Rightarrow> int \<Rightarrow> int \<Rightarrow> string \<Rightarrow> world \<Rightarrow> unit result" where
  "set_button_write ev deck_id pg btn v w =
     save_state ev
       (w\<lparr>state := button_state_upd deck_id pg btn (\<lambda>b. b\<lparr>write' := Some v\<rparr>) (state w)\<rparr>)"

definition get_button_write :: "string \<Rightarrow> int \<Rightarrow> int \<Rightarrow> world \<Rightarrow> string \<times> world" where
  "get_button_write deck_id pg btn w =
     (case button_state deck_id pg btn w of (b, w') \<Rightarrow> (field_or (write' b) [], w'))"

subsection \<open>Brightness and page\<close>

text \<open>\<^verbatim>\<open>state.setdefault(deck_id, {})[k] = v\<close>, for the two keys the module writes.\<close>

definition deck_state_upd :: "string \<Rightarrow> (deck_state \<Rightarrow> deck_state) \<Rightarrow> state_t \<Rightarrow> state_t" where
  "deck_state_upd deck_id f st = AList.update deck_id (f (get_or st deck_id empty_deck)) st"

definition set_brightness :: "env \<Rightarrow> string \<Rightarrow> int \<Rightarrow> world \<Rightarrow> unit result" where
  "set_brightness ev deck_id b w =
     (case decks w deck_id of
        None \<Rightarrow> (Inl KeyError, w)
      | Some dk \<Rightarrow>
          if deck_ok ev dk
          then save_state ev
                 (w\<lparr>out := out w @ [DeckSetBrightness dk b],
                    state := deck_state_upd deck_id (\<lambda>ds. ds\<lparr>brightness := Some b\<rparr>) (state w)\<rparr>)
          else (Inl TransportError, w))"

definition get_brightness :: "state_t \<Rightarrow> string \<Rightarrow> int" where
  "get_brightness st deck_id = field_or (brightness (get_or st deck_id empty_deck)) 100"

definition change_brightness :: "env \<Rightarrow> string \<Rightarrow> int \<Rightarrow> world \<Rightarrow> unit result" where
  "change_brightness ev deck_id amount w =
     set_brightness ev deck_id (max (min (get_brightness (state w) deck_id + amount) 100) 0) w"

definition set_page :: "env \<Rightarrow> string \<Rightarrow> int \<Rightarrow> world \<Rightarrow> unit result" where
  "set_page ev deck_id pg w =
     seq (render ev (w\<lparr>state := deck_state_upd deck_id (\<lambda>ds. ds\<lparr>page := Some pg\<rparr>) (state w)\<rparr>))
       (\<lambda>_. save_state ev)"

subsection \<open>The key callback\<close>

text \<open>\<^verbatim>\<open>s.split(sep)\<close> with a separator of one character.\<close>

fun split :: "char \<Rightarrow> string \<Rightarrow> string list" where
  "split sep [] = [[]]"
| "split sep (c # cs) =
     (if c = sep then [] # split sep cs
      else (case split sep cs of [] \<Rightarrow> [[c]] | x # xs \<Rightarrow> (c # x) # xs))"

text \<open>
  A character of a string is a code point below 256. \<^verbatim>\<open>s.strip()\<close> removes the
  whitespace at both ends; of these code points Python counts 9 to 13, 28 to 32, 133 and
  160 as whitespace.
\<close>

definition isspace :: "char \<Rightarrow> bool" where
  "isspace c =
     (let n = (of_char c :: nat)
      in (9 \<le> n \<and> n \<le> 13) \<or> (28 \<le> n \<and> n \<le> 32) \<or> n = 133 \<or> n = 160)"

definition strip :: "string \<Rightarrow> string" where
  "strip s = rev (dropWhile isspace (rev (dropWhile isspace s)))"

fun for_each :: "('a \<Rightarrow> world \<Rightarrow> unit result) \<Rightarrow> 'a list \<Rightarrow> world \<Rightarrow> unit result" where
  "for_each f [] w = (Inr (), w)"
| "for_each f (x # xs) w = seq (f x w) (\<lambda>_. for_each f xs)"

definition popen :: "env \<Rightarrow> string list \<Rightarrow> world \<Rightarrow> unit result" where
  "popen ev args w =
     (if popen_ok ev args then (Inr (), w\<lparr>out := out w @ [Popen args]\<rparr>) else (Inl OSError, w))"

text \<open>
  \<^verbatim>\<open>keyboard.press(getattr(Key, key_name.lower(), key_name))\<close>: the key is resolved by
  the keyboard library; the effect records the name it is resolved from.
\<close>

definition keyboard_press :: "env \<Rightarrow> string \<Rightarrow> world \<Rightarrow> unit result" where
  "keyboard_press ev key_name w =
     (if key_ok ev key_name then (Inr (), w\<lparr>out := out w @ [KeyPress key_name]\<rparr>)
      else (Inl ValueError, w))"

definition keyboard_release :: "env \<Rightarrow> string \<Rightarrow> world \<Rightarrow> unit result" where
  "keyboard_release ev key_name w =
     (if key_ok ev key_name then (Inr (), w\<lparr>out := out w @ [KeyRelease key_name]\<rparr>)
      else (Inl ValueError, w))"

definition keyboard_type :: "env \<Rightarrow> string \<Rightarrow> world \<Rightarrow> unit result" where
  "keyboard_type ev s w =
     (if type_ok ev s then (Inr (), w\<lparr>out := out w @ [KeyType s]\<rparr>) else (Inl ValueError, w))"

text \<open>Lines 35 to 37.\<close>

definition press_command :: "env \<Rightarrow> string \<Rightarrow> int \<Rightarrow> int \<Rightarrow> world \<Rightarrow> unit result" where
  "press_command ev deck_id pg key w =
     (case get_button_command deck_id pg key w of
        (cmd, w1) \<Rightarrow> if cmd \<noteq> [] then popen ev (split CHR '' '' cmd) w1 else (Inr (), w1))"

text \<open>Lines 39 to 46.\<close>

definition press_section :: "env \<Rightarrow> string \<Rightarrow> world \<Rightarrow> unit result" where
  "press_section ev section w =
     seq (for_each (keyboard_press ev) (split CHR ''+'' section) w)
       (\<lambda>_. for_each (keyboard_release ev) (split CHR ''+'' section))"

definition press_keys :: "env \<Rightarrow> string \<Rightarrow> int \<Rightarrow> int \<Rightarrow> world \<Rightarrow> unit result" where
  "press_keys ev deck_id pg key w =
     (case get_button_keys deck_id pg key w of
        (ks, w1) \<Rightarrow>
          if ks \<noteq> []
          then for_each (press_section ev)
                 (split CHR '','' (filter (\<lambda>c. c \<noteq> CHR '' '') (strip ks))) w1
          else (Inr (), w1))"

text \<open>Lines 48 to 50.\<close>

definition press_write :: "env \<Rightarrow> string \<Rightarrow> int \<Rightarrow> int \<Rightarrow> world \<Rightarrow> unit result" where
  "press_write ev deck_id pg key w =
     (case get_button_write deck_id pg key w of
        (wr, w1) \<Rightarrow> if wr \<noteq> [] then keyboard_type ev wr w1 else (Inr (), w1))"

text \<open>Lines 52 to 54.\<close>

definition press_brightness :: "env \<Rightarrow> string \<Rightarrow> int \<Rightarrow> int \<Rightarrow> world \<Rightarrow> unit result" where
  "press_brightness ev deck_id pg key w =
     (case get_button_change_brightness deck_id pg key w of
        (amount, w1) \<Rightarrow>
          if amount \<noteq> 0 then change_brightness ev deck_id amount w1 else (Inr (), w1))"

text \<open>Lines 56 to 58.\<close>

definition press_switch_page :: "env \<Rightarrow> string \<Rightarrow> int \<Rightarrow> int \<Rightarrow> world \<Rightarrow> unit result" where
  "press_switch_page ev deck_id pg key w =
     (case get_button_switch_page deck_id pg key w of
        (sp, w1) \<Rightarrow> if sp \<noteq> 0 then set_page ev deck_id (sp - 1) w1 else (Inr (), w1))"

definition key_change_callback ::
    "env \<Rightarrow> string \<Rightarrow> int \<Rightarrow> bool \<Rightarrow> world \<Rightarrow> unit result" where
  "key_change_callback ev deck_id key pressed w =
     (if pressed then
        let pg = get_page (state w) deck_id in
        seq (press_command ev deck_id pg key w) (\<lambda>_ w1.
        seq (press_keys ev deck_id pg key w1) (\<lambda>_ w2.
        seq (press_write ev deck_id pg key w2) (\<lambda>_ w3.
        seq (press_brightness ev deck_id pg key w3) (\<lambda>_ w4.
        press_switch_page ev deck_id pg key w4))))
      else (Inr (), w))"

subsection \<open>Loading a configuration\<close>

text \<open>
  The dictionary comprehension \<^verbatim>\<open>{int(k): g(v) for k, v in d.items()}\<close>; \<open>None\<close>
  is the \<^verbatim>\<open>ValueError\<close> of \<^verbatim>\<open>int\<close>.
\<close>

fun int_keys ::
    "(string \<Rightarrow> int option) \<Rightarrow> ('a \<Rightarrow> 'b option) \<Rightarrow> (string \<times> 'a) list \<Rightarrow> (int \<times> 'b) list
       \<Rightarrow> (int \<times> 'b) list option" where
  "int_keys f g [] acc = Some acc"
| "int_keys f g ((k, v) # kvs) acc =
     (case f k of
        None \<Rightarrow> None
      | Some i \<Rightarrow> (case g v of None \<Rightarrow> None
                   | Some v' \<Rightarrow> int_keys f g kvs (AList.update i v' acc)))"

fun load_decks :: "env \<Rightarrow> (string \<times> file_deck) list \<Rightarrow> world \<Rightarrow> unit result" where
  "load_decks ev [] w = (Inr (), w)"
| "load_decks ev ((deck_id, fd) # rest) w =
     (case int_keys (to_int ev) (\<lambda>bs. int_keys (to_int ev) Some bs [])
             (field_or (file_buttons fd) []) [] of
        None \<Rightarrow> (Inl ValueError, w)
      | Some bs \<Rightarrow>
          load_decks ev rest
            (w\<lparr>state := AList.update deck_id
                  \<lparr>brightness = file_brightness fd, page = file_page fd, buttons = Some bs\<rparr>
                  (state w)\<rparr>))"

definition open_config :: "env \<Rightarrow> string \<Rightarrow> world \<Rightarrow> unit result" where
  "open_config ev config_file w =
     (case read_json ev config_file of
        Inl e \<Rightarrow> (Inl e, w)
      | Inr config \<Rightarrow>
          if field_or (streamdeck_ui_version config) 0 \<noteq> CONFIG_FILE_VERSION ev
          then (Inl ValueError, w)
          else (case file_state config of
                  None \<Rightarrow> (Inl KeyError, w\<lparr>state := []\<rparr>)
                | Some items \<Rightarrow> load_decks ev items (w\<lparr>state := []\<rparr>)))"

definition import_config :: "env \<Rightarrow> string \<Rightarrow> world \<Rightarrow> unit result" where
  "import_config ev config_file w =
     seq (open_config ev config_file w) (\<lambda>_ w1. seq (render ev w1) (\<lambda>_. save_state ev))"

subsection \<open>What a press does at the keyboard\<close>



subsection \<open>The brightness invariant\<close>

text \<open>Every device entry of the state that stores a brightness stores one from 0 to 100.\<close>

definition deck_brightness_ok :: "string \<times> deck_state \<Rightarrow> bool" where
  "deck_brightness_ok e = (case brightness (snd e) of None \<Rightarrow> True | Some b \<Rightarrow> 0 \<le> b \<and> b \<le> 100)"

definition brightness_in_range :: "state_t \<Rightarrow> bool" where
  "brightness_in_range st = list_all deck_brightness_ok st"

subsection \<open>The keys in view\<close>

text \<open>
  Both \<^verbatim>\<open>render\<close> and \<^verbatim>\<open>render_thread\<close> walk the same keys: for every device
  of the state that is in the registry, in the order of the state, the buttons of the page
  the device shows, in the order of the page. \<open>view\<close> lists them, each with the handle
  of its device, its cache key and its button dictionary. The properties below prove that
  the two loops are a \<open>for_each\<close> over this list.
\<close>

type_synonym view_item = "deck \<times> cache_key \<times> button"

abbreviation handle :: "view_item \<Rightarrow> deck" where
  "handle v \<equiv> fst v"

abbreviation item_key :: "view_item \<Rightarrow> cache_key" where
  "item_key v \<equiv> fst (snd v)"

abbreviation button_id :: "view_item \<Rightarrow> int" where
  "button_id v \<equiv> snd (snd (fst (snd v)))"

abbreviation settings :: "view_item \<Rightarrow> button" where
  "settings v \<equiv> snd (snd v)"

fun view_of :: "state_t \<Rightarrow> (string \<rightharpoonup> deck) \<Rightarrow> (string \<times> deck_state) list \<Rightarrow> view_item list" where
  "view_of st dks [] = []"
| "view_of st dks ((deck_id, ds) # rest) =
     (case dks deck_id of
        None \<Rightarrow> []
      | Some dk \<Rightarrow>
          map (\<lambda>(b, s). (dk, (deck_id, get_page st deck_id, b), s))
            (page_items ds (get_page st deck_id)))
     @ view_of st dks rest"

definition view :: "world \<Rightarrow> view_item list" where
  "view w = view_of (state w) (decks w) (state w)"

text \<open>The two loop bodies, on a key in view.\<close>

fun draw_item :: "env \<Rightarrow> int \<Rightarrow> view_item \<Rightarrow> world \<Rightarrow> unit result" where
  "draw_item ev t (dk, (d, p, b), s) w = draw_button ev t dk d p b w"

fun render_item :: "env \<Rightarrow> view_item \<Rightarrow> world \<Rightarrow> unit result" where
  "render_item ev (dk, (d, p, b), s) w = render_button ev dk d p b s w"

text \<open>
  What one iteration of the render thread at clock reading \<open>t\<close> does to an entry: an
  entry is due when one of the two conditions of lines 296 and 304 holds; a due entry is
  replaced by the advanced one and its frame is pushed.
\<close>

definition due :: "int \<Rightarrow> cache_entry \<Rightarrow> bool" where
  "due t e = (fps e \<noteq> 0 \<and> next_time e \<le> of_int t \<or> fps e = 0 \<and> next_time e = 0)"

definition advanced :: "int \<Rightarrow> cache_entry \<Rightarrow> cache_entry" where
  "advanced t e =
     e\<lparr>next_time := (if fps e \<noteq> 0 then float_add (float_of_int t) (float_div 1000 (fps e))
                      else - 1),
       frame := (frame e + 1) mod int (length (image e))\<rparr>"

definition step :: "int \<Rightarrow> cache_entry \<Rightarrow> cache_entry" where
  "step t e = (if due t e then advanced t e else e)"

definition drawn :: "int \<Rightarrow> deck \<Rightarrow> int \<Rightarrow> cache_entry option \<Rightarrow> effect list" where
  "drawn t dk b eo =
     (case eo of
        None \<Rightarrow> []
      | Some e \<Rightarrow> if due t e then [DeckSetKeyImage dk b (the (py_index (image e) (frame e)))]
                  else [])"

text \<open>The cache and the pushes after an iteration over the keys \<open>vs\<close>.\<close>

definition scan_cache :: "int \<Rightarrow> view_item list \<Rightarrow> (cache_key \<rightharpoonup> cache_entry)
    \<Rightarrow> (cache_key \<rightharpoonup> cache_entry)" where
  "scan_cache t vs c = (\<lambda>k. if k \<in> item_key ` set vs then map_option (step t) (c k) else c k)"

definition scan_draws :: "int \<Rightarrow> view_item list \<Rightarrow> (cache_key \<rightharpoonup> cache_entry) \<Rightarrow> effect list" where
  "scan_draws t vs c = concat (map (\<lambda>v. drawn t (handle v) (button_id v) (c (item_key v))) vs)"

text \<open>The pushes to one key position of one device, among the effects.\<close>

definition target :: "view_item \<Rightarrow> deck \<times> int" where
  "target v = (handle v, button_id v)"

definition draws_on :: "deck \<Rightarrow> int \<Rightarrow> effect list \<Rightarrow> effect list" where
  "draws_on dk b effs =
     filter (\<lambda>x. case x of DeckSetKeyImage dk' b' img \<Rightarrow> dk' = dk \<and> b' = b | _ \<Rightarrow> False) effs"

text \<open>
  The worlds in which an iteration of the render thread runs to its end: the lock is free,
  the state is a dictionary (no key in view comes twice), no two serials of the registry
  share a handle, every handle in view accepts a frame, and the frame index of every entry
  in view is an index of its frames.
\<close>

definition entry_ok :: "(cache_key \<rightharpoonup> cache_entry) \<Rightarrow> view_item \<Rightarrow> bool" where
  "entry_ok c v =
     (case c (item_key v) of None \<Rightarrow> True | Some e \<Rightarrow> py_index (image e) (frame e) \<noteq> None)"

definition view_ok :: "env \<Rightarrow> world \<Rightarrow> bool" where
  "view_ok ev w =
     (\<not> lock_held w \<and> distinct (map item_key (view w)) \<and> distinct (map target (view w)) \<and>
      list_all (\<lambda>v. deck_ok ev (handle v)) (view w))"

definition scan_ok :: "env \<Rightarrow> world \<Rightarrow> bool" where
  "scan_ok ev w = (view_ok ev w \<and> list_all (entry_ok (image_cache w)) (view w))"

text \<open>
  The frames and the rate that \<^verbatim>\<open>render\<close> stores for a key: those of its entry, or
  those \<^verbatim>\<open>_render_key_image\<close> returns when it has none. A key can be rendered when
  it has an entry or \<^verbatim>\<open>_render_key_image\<close> returns for it. \<open>render_cache\<close> is the
  cache after a render pass over the keys \<open>vs\<close>.
\<close>

definition source :: "env \<Rightarrow> (cache_key \<rightharpoonup> cache_entry) \<Rightarrow> view_item \<Rightarrow> native_image list \<times> rat" where
  "source ev c v =
     (case c (item_key v) of
        Some e \<Rightarrow> (image e, fps e)
      | None \<Rightarrow> (case render_key_image ev (handle v) (settings v) of
                   Inr r \<Rightarrow> r | Inl err \<Rightarrow> ([], 0)))"

definition can_render :: "env \<Rightarrow> (cache_key \<rightharpoonup> cache_entry) \<Rightarrow> view_item \<Rightarrow> bool" where
  "can_render ev c v =
     (case c (item_key v) of
        Some e \<Rightarrow> True
      | None \<Rightarrow> (case render_key_image ev (handle v) (settings v) of
                   Inr r \<Rightarrow> True | Inl err \<Rightarrow> False))"

definition renderable :: "env \<Rightarrow> world \<Rightarrow> bool" where
  "renderable ev w = list_all (can_render ev (image_cache w)) (view w)"

definition render_cache ::
    "env \<Rightarrow> view_item list \<Rightarrow> (cache_key \<rightharpoonup> cache_entry) \<Rightarrow> (cache_key \<rightharpoonup> cache_entry)" where
  "render_cache ev vs c =
     (\<lambda>k. case find (\<lambda>v. item_key v = k) vs of
             None \<Rightarrow> c k
           | Some v \<Rightarrow> Some (fresh_entry (source ev c v)))"

text \<open>
  The worlds in which a render pass and the iterations of the render thread that follow it
  run to their end: as above, every key in view can be rendered, and every key in view has
  at least one frame.
\<close>

definition render_ok :: "env \<Rightarrow> world \<Rightarrow> bool" where
  "render_ok ev w =
     (view_ok ev w \<and> renderable ev w \<and>
      list_all (\<lambda>v. fst (source ev (image_cache w) v) \<noteq> []) (view w))"

section \<open>Concrete worlds\<close>

text \<open>Nothing configured, nothing cached, no device attached.\<close>

definition w_empty :: world where
  "w_empty = \<lparr>state = [], image_cache = Map.empty, decks = Map.empty, lock_held = False,
     out = []\<rparr>"

text \<open>
  An environment in which every outside call succeeds; the expected version is 1 and the
  file \<^verbatim>\<open>old.json\<close> carries version 0.
\<close>

definition ev_ok :: env where
  "ev_ok = \<lparr>CONFIG_FILE_VERSION = 1, STATE_FILE = ''state.json'', DEFAULT_FONT = ''Roboto.ttf'',
     read_json = (\<lambda>f. if f = ''old.json''
        then Inr \<lparr>streamdeck_ui_version = Some 0, file_state = Some []\<rparr> else Inl OSError),
     to_int = (\<lambda>s. None),
     key_image = (\<lambda>dk ic tx fn. Inr ([7], 0)),
     popen_ok = (\<lambda>args. True), key_ok = (\<lambda>k. True), type_ok = (\<lambda>s. True),
     deck_ok = (\<lambda>dk. True), write_ok = (\<lambda>f. True)\<rparr>"

text \<open>One attached device with a stored brightness.\<close>

definition w_bright :: "int \<Rightarrow> world" where
  "w_bright b = \<lparr>state = [(''A1'', \<lparr>brightness = Some b, page = None, buttons = None\<rparr>)],
     image_cache = Map.empty, decks = [''A1'' \<mapsto> 11], lock_held = False, out = []\<rparr>"

text \<open>
  One attached device showing page 0, whose key 2 has a command, keys, text to type, a
  brightness change and a page switch.
\<close>

definition all_actions :: button where
  "all_actions = \<lparr>icon = None, text' = None, font = None, command = Some ''ls -l'',
     keys = Some ''ctrl+c, a'', write' = Some ''hi'', brightness_change = Some 20,
     switch_page = Some 2\<rparr>"

definition w_press :: world where
  "w_press = \<lparr>state = [(''A1'', \<lparr>brightness = Some 95, page = None,
       buttons = Some [(0, [(2, all_actions)])]\<rparr>)],
     image_cache = Map.empty, decks = [''A1'' \<mapsto> 11], lock_held = False, out = []\<rparr>"

text \<open>The same environment, except that no process can be launched.\<close>

definition ev_no_launch :: env where
  "ev_no_launch = ev_ok\<lparr>popen_ok := (\<lambda>args. False)\<rparr>"


text \<open>
  One attached device showing page 0, whose key 4 has an icon of five frames that is in the
  cache as \<^verbatim>\<open>render\<close> leaves it, at 10 frames per second.
\<close>

definition five_frames :: "native_image list" where
  "five_frames = [20, 21, 22, 23, 24]"

definition anim_key :: cache_key where
  "anim_key = (''A1'', 0, 4)"

definition w_anim :: world where
  "w_anim = \<lparr>state = [(''A1'', \<lparr>brightness = None, page = None,
       buttons = Some [(0, [(4, empty_button\<lparr>icon := Some ''spin.gif''\<rparr>)])]\<rparr>)],
     image_cache = [anim_key \<mapsto> fresh_entry (five_frames, 10)],
     decks = [''A1'' \<mapsto> 11], lock_held = False, out = []\<rparr>"

text \<open>
  The same device later: the entry has been drawn once at reading 0, so it is at frame 1
  and due at 100.
\<close>

definition w_anim_later :: world where
  "w_anim_later = w_anim\<lparr>image_cache :=
     [anim_key \<mapsto> \<lparr>image = five_frames, fps = 10, next_time = 100, frame = 1\<rparr>]\<rparr>"

text \<open>
  The same device with a still icon of one frame in the cache, as the render thread leaves
  it once it has drawn it.
\<close>

definition w_still :: world where
  "w_still = w_anim\<lparr>image_cache :=
     [anim_key \<mapsto> \<lparr>image = [7], fps = 0, next_time = - 1, frame = 0\<rparr>]\<rparr>"

text \<open>
  The clock readings of \<open>n\<close> iterations of the render thread, 10 ms apart from
  \<open>t0\<close>.
\<close>

definition ticks :: "int \<Rightarrow> nat \<Rightarrow> int list" where
  "ticks t0 n = map (\<lambda>i. t0 + 10 * int i) [0..<n]"

section \<open>Properties\<close>

subsection \<open>Unfolding the model on a concrete world\<close>

lemmas eval_defs = key_change_callback_def press_command_def press_keys_def press_write_def
  press_brightness_def press_switch_page_def press_section_def
  get_button_command_def get_button_keys_def get_button_write_def
  get_button_change_brightness_def get_button_switch_page_def button_state_def
  button_state_upd_def button_of_def get_or_def field_or_def get_page_def
  popen_def keyboard_press_def keyboard_release_def keyboard_type_def
  change_brightness_def set_brightness_def get_brightness_def set_page_def deck_state_upd_def
  render_def render_button_def fresh_entry_def render_key_image_def page_items_def
  save_state_def export_config_def seq_def strip_def isspace_def
  empty_deck_def empty_button_def

subsection \<open>Sequencing\<close>

lemma seq_snd_pres:
  assumes "P (snd m)" and "\<And>x w. P w \<Longrightarrow> P (snd (f x w))"
  shows "P (snd (seq m f))"
proof (cases m)
  case (Pair r w)
  then show ?thesis using assms by (cases r) (simp_all add: seq_def)
qed

lemma for_each_pres:
  assumes "\<And>x w. P w \<Longrightarrow> P (snd (f x w))" and "P w"
  shows "P (snd (for_each f xs w))"
  using assms(2)
proof (induction xs arbitrary: w)
  case Nil
  then show ?case by simp
next
  case (Cons x xs)
  show ?case
    unfolding for_each.simps
    by (rule seq_snd_pres) (simp_all add: assms(1) Cons)
qed


subsection \<open>What a render pass and a save leave alone\<close>

lemma button_of_upd:
  "button_of (button_state_upd d p b f st) d p b = f (button_of st d p b)"
  by (simp add: button_of_def button_state_upd_def get_or_def field_or_def Let_def update_conv')

lemma render_button_frame:
  "state (snd (render_button ev dk d p b s w)) = state w \<and>
   decks (snd (render_button ev dk d p b s w)) = decks w \<and>
   out (snd (render_button ev dk d p b s w)) = out w \<and>
   lock_held (snd (render_button ev dk d p b s w)) = lock_held w"
  by (simp add: render_button_def Let_def split: option.splits sum.splits prod.splits)

lemma render_buttons_frame:
  "state (snd (render_buttons ev dk d p bs w)) = state w \<and>
   decks (snd (render_buttons ev dk d p bs w)) = decks w \<and>
   out (snd (render_buttons ev dk d p bs w)) = out w \<and>
   lock_held (snd (render_buttons ev dk d p bs w)) = lock_held w"
proof (induction bs arbitrary: w)
  case Nil
  then show ?case by simp
next
  case (Cons a bs)
  obtain b s where a: "a = (b, s)" by (cases a)
  obtain r w1 where r: "render_button ev dk d p b s w = (r, w1)" by (cases "render_button ev dk d p b s w")
  have f: "state w1 = state w \<and> decks w1 = decks w \<and> out w1 = out w \<and> lock_held w1 = lock_held w"
    using render_button_frame [of ev dk d p b s w] r by simp
  show ?case using Cons.IH [of w1] f
    by (cases r) (simp_all add: a r seq_def)
qed

lemma render_decks_frame:
  "state (snd (render_decks ev ds w)) = state w \<and>
   decks (snd (render_decks ev ds w)) = decks w \<and>
   out (snd (render_decks ev ds w)) = out w \<and>
   lock_held (snd (render_decks ev ds w)) = lock_held w"
proof (induction ds arbitrary: w)
  case Nil
  then show ?case by simp
next
  case (Cons a ds)
  obtain d s where a: "a = (d, s)" by (cases a)
  show ?case
  proof (cases "decks w d")
    case None
    then show ?thesis using Cons.IH [of w] by (simp add: a)
  next
    case (Some dk)
    obtain r w1 where r: "render_buttons ev dk d (get_page (state w) d) (page_items s (get_page (state w) d)) w = (r, w1)"
      by (cases "render_buttons ev dk d (get_page (state w) d) (page_items s (get_page (state w) d)) w")
    have f: "state w1 = state w \<and> decks w1 = decks w \<and> out w1 = out w \<and> lock_held w1 = lock_held w"
      using render_buttons_frame [of ev dk d "get_page (state w) d" "page_items s (get_page (state w) d)" w] r by simp
    show ?thesis using Cons.IH [of w1] f
      by (cases r) (simp_all add: a Some r seq_def)
  qed
qed

lemma render_frame:
  "state (snd (render ev w)) = state w \<and> decks (snd (render ev w)) = decks w \<and>
   out (snd (render ev w)) = out w"
proof (cases "lock_held w")
  case True
  then show ?thesis by (simp add: render_def)
next
  case False
  obtain r w1 where r: "render_decks ev (state w) (w\<lparr>lock_held := True\<rparr>) = (r, w1)"
    by (cases "render_decks ev (state w) (w\<lparr>lock_held := True\<rparr>)")
  have "state w1 = state w \<and> decks w1 = decks w \<and> out w1 = out w"
    using render_decks_frame [of ev "state w" "w\<lparr>lock_held := True\<rparr>"] r by simp
  then show ?thesis using False by (cases r) (simp_all add: render_def r seq_def)
qed

lemma save_state_frame:
  "state (snd (save_state ev w)) = state w \<and> decks (snd (save_state ev w)) = decks w \<and>
   image_cache (snd (save_state ev w)) = image_cache w \<and>
   lock_held (snd (save_state ev w)) = lock_held w"
  by (simp add: save_state_def export_config_def)

lemma render_then_save_state:
  "state (snd (seq (render ev w) (\<lambda>_. save_state ev))) = state w"
proof -
  obtain r w1 where r: "render ev w = (r, w1)" by (cases "render ev w")
  have "state w1 = state w" using render_frame [of ev w] r by simp
  then show ?thesis by (cases r) (simp_all add: r seq_def save_state_frame)
qed

subsection \<open>The configuration store\<close>

text \<open>
  C9: for every device serial, page and button, reading a field right after setting it
  gives the value that was set, for each of text, icon, command, keys, write, switch page
  and brightness change. The setters of text, icon and brightness change run a render pass
  and every setter saves; the read is taken on whatever these leave behind, also when one
  of them raised or never returned.
\<close>

theorem set_get_round_trip:
  "fst (get_button_text d p b (snd (set_button_text ev d p b s w))) = s \<and>
   fst (get_button_icon d p b (snd (set_button_icon ev d p b s w))) = s \<and>
   fst (get_button_command d p b (snd (set_button_command ev d p b s w))) = s \<and>
   fst (get_button_keys d p b (snd (set_button_keys ev d p b s w))) = s \<and>
   fst (get_button_write d p b (snd (set_button_write ev d p b s w))) = s \<and>
   fst (get_button_switch_page d p b (snd (set_button_switch_page ev d p b n w))) = n \<and>
   fst (get_button_change_brightness d p b (snd (set_button_change_brightness ev d p b n w))) = n"
  by (simp add: get_button_text_def set_button_text_def get_button_icon_def set_button_icon_def
      get_button_command_def set_button_command_def get_button_keys_def set_button_keys_def
      get_button_write_def set_button_write_def get_button_switch_page_def
      set_button_switch_page_def get_button_change_brightness_def
      set_button_change_brightness_def button_state_def render_then_save_state
      save_state_frame button_of_upd field_or_def)


lemma lookup_button_upd:
  "lookup_button (button_state_upd d p b f st) d p b = Some (f (button_of st d p b))"
  by (simp add: lookup_button_def button_state_upd_def Let_def update_conv')

lemma button_of_absent:
  "lookup_button st d p b = None \<Longrightarrow> button_of st d p b = empty_button"
  by (auto simp: lookup_button_def button_of_def get_or_def field_or_def empty_deck_def
      split: option.splits)

text \<open>
  C10: the getters are not read-only. For a device serial, page and button with no button
  dictionary in the state, every getter returns the default of its field (the empty string,
  or 0) and leaves a state that differs from the one before and holds an empty button
  dictionary for that triple, under a device entry, its buttons and the page. Nothing is
  written to the state file, and the image cache and the device registry are as before.
\<close>

theorem getters_insert_entries:
  assumes "lookup_button (state w) d p b = None"
  shows "\<exists>w'. get_button_text d p b w = ([], w') \<and> get_button_icon d p b w = ([], w') \<and>
    get_button_command d p b w = ([], w') \<and> get_button_keys d p b w = ([], w') \<and>
    get_button_write d p b w = ([], w') \<and> get_button_switch_page d p b w = (0, w') \<and>
    get_button_change_brightness d p b w = (0, w') \<and>
    lookup_button (state w') d p b = Some empty_button \<and> state w' \<noteq> state w \<and>
    out w' = out w \<and> image_cache w' = image_cache w \<and> decks w' = decks w"
proof -
  have e: "button_of (state w) d p b = empty_button"
    using assms by (rule button_of_absent)
  have l: "lookup_button (button_state_upd d p b (\<lambda>b. b) (state w)) d p b = Some empty_button"
    by (simp add: lookup_button_upd e)
  have n: "button_state_upd d p b (\<lambda>b. b) (state w) \<noteq> state w"
    using l assms by auto
  show ?thesis
    by (rule exI [of _ "w\<lparr>state := button_state_upd d p b (\<lambda>b. b) (state w)\<rparr>"])
      (simp add: get_button_text_def get_button_icon_def get_button_command_def
        get_button_keys_def get_button_write_def get_button_switch_page_def
        get_button_change_brightness_def button_state_def e l n field_or_def empty_button_def)
qed

theorem getters_insert_entries_witness:
  "lookup_button (state w_empty) ''A1'' 0 3 = None \<and>
   get_button_text ''A1'' 0 3 w_empty =
     ([], w_empty\<lparr>state := [(''A1'', \<lparr>brightness = None, page = None,
                      buttons = Some [(0, [(3, empty_button)])]\<rparr>)]\<rparr>) \<and>
   (\<exists>w'. get_button_command ''A1'' 0 3 w_empty = ([], w') \<and>
      lookup_button (state w') ''A1'' 0 3 = Some empty_button \<and> out w' = out w_empty)"
proof -
  have h: "lookup_button (state w_empty) ''A1'' 0 3 = None"
    by (simp add: lookup_button_def w_empty_def)
  have "get_button_text ''A1'' 0 3 w_empty =
     ([], w_empty\<lparr>state := [(''A1'', \<lparr>brightness = None, page = None,
                      buttons = Some [(0, [(3, empty_button)])]\<rparr>)]\<rparr>)"
    by (simp add: get_button_text_def button_state_def button_state_upd_def button_of_def
        get_or_def field_or_def empty_deck_def w_empty_def empty_button_def)
  then show ?thesis
    using h getters_insert_entries [OF h] by blast
qed

subsection \<open>Brightness\<close>

lemma get_brightness_upd:
  "get_brightness (deck_state_upd d (\<lambda>ds. ds\<lparr>brightness := Some b\<rparr>) st) d = b"
  by (simp add: get_brightness_def deck_state_upd_def get_or_def field_or_def update_conv')

lemma set_brightness_stores:
  "decks w d = Some dk \<Longrightarrow> deck_ok ev dk \<Longrightarrow>
     get_brightness (state (snd (set_brightness ev d b w))) d = b"
  by (simp add: set_brightness_def save_state_frame get_brightness_upd)

text \<open>
  C5: for a device in the registry whose handle accepts the call, and every signed amount,
  the brightness stored by \<^verbatim>\<open>change_brightness\<close> is the old brightness (100 when
  none is stored) plus the amount, clamped into 0 to 100. The witness is the two examples:
  95 and +20 store 100, 5 and -20 store 0.
\<close>

theorem change_brightness_clamped:
  assumes "decks w d = Some dk" and "deck_ok ev dk"
  shows "get_brightness (state (snd (change_brightness ev d amount w))) d =
           max (min (get_brightness (state w) d + amount) 100) 0 \<and>
         0 \<le> get_brightness (state (snd (change_brightness ev d amount w))) d \<and>
         get_brightness (state (snd (change_brightness ev d amount w))) d \<le> 100"
  using assms by (simp add: change_brightness_def set_brightness_stores)

theorem change_brightness_clamped_witness:
  "decks (w_bright 95) ''A1'' = Some 11 \<and> deck_ok ev_ok 11 \<and>
   get_brightness (state (w_bright 95)) ''A1'' = 95 \<and>
   get_brightness (state (snd (change_brightness ev_ok ''A1'' 20 (w_bright 95)))) ''A1'' = 100 \<and>
   get_brightness (state (w_bright 5)) ''A1'' = 5 \<and>
   get_brightness (state (snd (change_brightness ev_ok ''A1'' (- 20) (w_bright 5)))) ''A1'' = 0"
proof -
  have d: "decks (w_bright b) ''A1'' = Some 11" for b by (simp add: w_bright_def)
  have k: "deck_ok ev_ok 11" by (simp add: ev_ok_def)
  have g: "get_brightness (state (w_bright b)) ''A1'' = b" for b
    by (simp add: w_bright_def get_brightness_def get_or_def field_or_def)
  show ?thesis
    using change_brightness_clamped [OF d [of 95] k, of 20]
      change_brightness_clamped [OF d [of 5] k, of "- 20"]
    by (simp add: d k g)
qed

subsection \<open>Loading\<close>

text \<open>
  C6: when the decoded file carries a version other than the expected one (an absent
  version counts as 0), \<^verbatim>\<open>_open_config\<close> raises \<^verbatim>\<open>ValueError\<close> and
  nothing has changed: not the state, the image cache, the registry, the lock or the
  outside. \<^verbatim>\<open>import_config\<close> raises the same before it renders or saves.
\<close>

theorem version_mismatch_fails:
  assumes "read_json ev config_file = Inr config"
    and "field_or (streamdeck_ui_version config) 0 \<noteq> CONFIG_FILE_VERSION ev"
  shows "open_config ev config_file w = (Inl ValueError, w) \<and>
         import_config ev config_file w = (Inl ValueError, w)"
  using assms by (simp add: open_config_def import_config_def seq_def)

theorem version_mismatch_fails_witness:
  "read_json ev_ok ''old.json'' = Inr \<lparr>streamdeck_ui_version = Some 0, file_state = Some []\<rparr> \<and>
   field_or (streamdeck_ui_version \<lparr>streamdeck_ui_version = Some 0, file_state = Some []\<rparr>) 0
     \<noteq> CONFIG_FILE_VERSION ev_ok \<and>
   open_config ev_ok ''old.json'' (w_bright 40) = (Inl ValueError, w_bright 40)"
proof -
  have r: "read_json ev_ok ''old.json'' = Inr \<lparr>streamdeck_ui_version = Some 0, file_state = Some []\<rparr>"
    by (simp add: ev_ok_def)
  have v: "field_or (streamdeck_ui_version \<lparr>streamdeck_ui_version = Some 0, file_state = Some []\<rparr>) 0
     \<noteq> CONFIG_FILE_VERSION ev_ok"
    by (simp add: ev_ok_def field_or_def)
  show ?thesis using r v version_mismatch_fails [OF r v, of "w_bright 40"] by simp
qed

subsection \<open>The brightness invariant is kept, except by an unchecked argument\<close>

lemma list_all_update:
  "list_all P al \<Longrightarrow> P (k, v) \<Longrightarrow> list_all P (AList.update k v al)"
  by (induction al) auto

lemma get_or_brightness_ok:
  "brightness_in_range st \<Longrightarrow> deck_brightness_ok (d', get_or st d empty_deck)"
proof (cases "map_of st d")
  case None
  then show ?thesis by (simp add: get_or_def deck_brightness_ok_def empty_deck_def)
next
  case (Some ds)
  assume a: "brightness_in_range st"
  have "(d, ds) \<in> set st" using Some by (rule map_of_SomeD)
  then have "deck_brightness_ok (d, ds)"
    using a by (auto simp: brightness_in_range_def list_all_iff)
  then show ?thesis using Some by (simp add: get_or_def deck_brightness_ok_def)
qed

lemma brightness_in_range_button_state_upd:
  "brightness_in_range st \<Longrightarrow> brightness_in_range (button_state_upd d p b f st)"
  using get_or_brightness_ok [of st d d]
  by (simp add: button_state_upd_def Let_def brightness_in_range_def list_all_update
      deck_brightness_ok_def)

lemma brightness_in_range_set_page:
  "brightness_in_range st \<Longrightarrow>
     brightness_in_range (deck_state_upd d (\<lambda>ds. ds\<lparr>page := Some p\<rparr>) st)"
  using get_or_brightness_ok [of st d d]
  by (simp add: deck_state_upd_def brightness_in_range_def list_all_update deck_brightness_ok_def)

lemma brightness_in_range_set_brightness:
  "brightness_in_range st \<Longrightarrow> 0 \<le> b \<Longrightarrow> b \<le> 100 \<Longrightarrow>
     brightness_in_range (deck_state_upd d (\<lambda>ds. ds\<lparr>brightness := Some b\<rparr>) st)"
  by (simp add: deck_state_upd_def brightness_in_range_def list_all_update deck_brightness_ok_def)

lemma set_brightness_in_range:
  "brightness_in_range (state w) \<Longrightarrow> 0 \<le> b \<Longrightarrow> b \<le> 100 \<Longrightarrow>
     brightness_in_range (state (snd (set_brightness ev d b w)))"
  by (simp add: set_brightness_def save_state_frame brightness_in_range_set_brightness
      split: option.splits)

lemma change_brightness_in_range:
  "brightness_in_range (state w) \<Longrightarrow>
     brightness_in_range (state (snd (change_brightness ev d amount w)))"
  by (simp add: change_brightness_def set_brightness_in_range)

lemma set_page_in_range:
  "brightness_in_range (state w) \<Longrightarrow> brightness_in_range (state (snd (set_page ev d p w)))"
  by (simp add: set_page_def render_then_save_state brightness_in_range_set_page)

lemma press_command_in_range:
  "brightness_in_range (state w) \<Longrightarrow>
     brightness_in_range (state (snd (press_command ev d p k w)))"
  by (simp add: press_command_def get_button_command_def button_state_def popen_def
      brightness_in_range_button_state_upd)

lemma keyboard_in_range:
  "brightness_in_range (state w) \<Longrightarrow>
     brightness_in_range (state (snd (keyboard_press ev n w))) \<and>
     brightness_in_range (state (snd (keyboard_release ev n w))) \<and>
     brightness_in_range (state (snd (keyboard_type ev n w)))"
  by (simp add: keyboard_press_def keyboard_release_def keyboard_type_def)

lemma press_section_in_range:
  "brightness_in_range (state w) \<Longrightarrow>
     brightness_in_range (state (snd (press_section ev s w)))"
  unfolding press_section_def
  by (intro seq_snd_pres [where P = "\<lambda>w. brightness_in_range (state w)"]
        for_each_pres [where P = "\<lambda>w. brightness_in_range (state w)"])
     (simp_all add: keyboard_in_range)

lemma press_keys_in_range:
  "brightness_in_range (state w) \<Longrightarrow>
     brightness_in_range (state (snd (press_keys ev d p k w)))"
  using for_each_pres [where P = "\<lambda>w. brightness_in_range (state w)" and f = "press_section ev"]
  by (simp add: press_keys_def get_button_keys_def button_state_def press_section_in_range
      brightness_in_range_button_state_upd)

lemma press_write_in_range:
  "brightness_in_range (state w) \<Longrightarrow>
     brightness_in_range (state (snd (press_write ev d p k w)))"
  by (simp add: press_write_def get_button_write_def button_state_def keyboard_in_range
      brightness_in_range_button_state_upd)

lemma press_brightness_in_range:
  "brightness_in_range (state w) \<Longrightarrow>
     brightness_in_range (state (snd (press_brightness ev d p k w)))"
  by (simp add: press_brightness_def get_button_change_brightness_def button_state_def
      change_brightness_in_range brightness_in_range_button_state_upd)

lemma press_switch_page_in_range:
  "brightness_in_range (state w) \<Longrightarrow>
     brightness_in_range (state (snd (press_switch_page ev d p k w)))"
  by (simp add: press_switch_page_def get_button_switch_page_def button_state_def
      set_page_in_range brightness_in_range_button_state_upd)

lemma key_change_callback_in_range:
  "brightness_in_range (state w) \<Longrightarrow>
     brightness_in_range (state (snd (key_change_callback ev d k pr w)))"
  unfolding key_change_callback_def Let_def
  apply (cases pr; simp)
  apply (intro seq_snd_pres [where P = "\<lambda>w. brightness_in_range (state w)"])
  apply (simp_all add: press_command_in_range press_keys_in_range press_write_in_range
      press_brightness_in_range press_switch_page_in_range)
  done

text \<open>
  C8, the claim as written fails: \<^verbatim>\<open>set_brightness\<close> stores its argument
  unchecked. From a state in range, setting 150 stores 150.
\<close>

theorem set_brightness_stores_out_of_range:
  "brightness_in_range (state (w_bright 100)) \<and>
   get_brightness (state (snd (set_brightness ev_ok ''A1'' 150 (w_bright 100)))) ''A1'' = 150 \<and>
   \<not> brightness_in_range (state (snd (set_brightness ev_ok ''A1'' 150 (w_bright 100))))"
  by (simp add: set_brightness_def w_bright_def ev_ok_def save_state_def export_config_def
      deck_state_upd_def get_or_def get_brightness_def field_or_def brightness_in_range_def
      deck_brightness_ok_def)

text \<open>
  C8 as amended: from a state in which every stored brightness is in 0 to 100,
  \<^verbatim>\<open>change_brightness\<close> and the key callback (with its brightness-change action)
  leave such a state, whatever the amount and whether or not they raise;
  \<^verbatim>\<open>set_brightness\<close> stores its argument as it is (for a device in the registry
  whose handle accepts the call), so it leaves such a state when the argument is in 0 to 100.
\<close>

theorem brightness_stays_in_range:
  assumes "brightness_in_range (state w)"
  shows "brightness_in_range (state (snd (change_brightness ev d amount w))) \<and>
         brightness_in_range (state (snd (key_change_callback ev d k pressed w))) \<and>
         (0 \<le> b \<and> b \<le> 100 \<longrightarrow> brightness_in_range (state (snd (set_brightness ev d b w)))) \<and>
         (\<forall>dk. decks w d = Some dk \<and> deck_ok ev dk \<longrightarrow>
            get_brightness (state (snd (set_brightness ev d b w))) d = b)"
  using assms
  by (simp add: change_brightness_in_range key_change_callback_in_range set_brightness_in_range
      set_brightness_stores)

theorem brightness_stays_in_range_witness:
  "brightness_in_range (state w_press) \<and>
   brightness_in_range (state (snd (key_change_callback ev_ok ''A1'' 2 True w_press))) \<and>
   get_brightness (state (snd (key_change_callback ev_ok ''A1'' 2 True w_press))) ''A1'' = 100 \<and>
   brightness_in_range (state (snd (change_brightness ev_ok ''A1'' 20 w_press))) \<and>
   brightness_in_range (state (snd (set_brightness ev_ok ''A1'' 40 w_press))) \<and>
   get_brightness (state (snd (set_brightness ev_ok ''A1'' 40 w_press))) ''A1'' = 40"
proof -
  have h: "brightness_in_range (state w_press)"
    by (simp add: brightness_in_range_def deck_brightness_ok_def w_press_def)
  have g: "get_brightness (state (snd (key_change_callback ev_ok ''A1'' 2 True w_press))) ''A1'' = 100"
    by (simp add: eval_defs w_press_def all_actions_def ev_ok_def)
  have d: "decks w_press ''A1'' = Some 11 \<and> deck_ok ev_ok 11"
    by (simp add: w_press_def ev_ok_def)
  show ?thesis
    using h g d brightness_stays_in_range [OF h, of ev_ok "''A1''" 20 2 True 40]
    by simp
qed

subsection \<open>The key callback\<close>

lemma button_state_upd_present:
  assumes "lookup_button st d p b = Some x"
  shows "button_state_upd d p b (\<lambda>b. b) st = st"
proof -
  from assms obtain ds where ds: "map_of st d = Some ds"
    by (auto simp: lookup_button_def split: option.splits)
  from assms ds obtain bs where bs: "buttons ds = Some bs"
    by (auto simp: lookup_button_def split: option.splits)
  from assms ds bs obtain pg where pg: "map_of bs p = Some pg"
    by (auto simp: lookup_button_def split: option.splits)
  from assms ds bs pg have x: "map_of pg b = Some x"
    by (simp add: lookup_button_def)
  have 1: "AList.update b x pg = pg" using x by (rule update_triv)
  have 2: "AList.update p pg bs = bs" using pg by (rule update_triv)
  have 3: "ds\<lparr>buttons := Some bs\<rparr> = ds" using bs by simp
  have 4: "AList.update d ds st = st" using ds by (rule update_triv)
  show ?thesis
    by (simp add: button_state_upd_def button_of_def get_or_def field_or_def ds bs pg x 1 2 3 4)
qed

lemma button_state_upd_idem:
  "button_state_upd d p b (\<lambda>b. b) (button_state_upd d p b f st) = button_state_upd d p b f st"
  by (rule button_state_upd_present) (rule lookup_button_upd)

















subsection \<open>A launch that fails\<close>

lemma keyboard_out_grows:
  assumes "\<exists>ys. out w = xs @ ys"
  shows "(\<exists>ys. out (snd (keyboard_press ev n w)) = xs @ ys) \<and>
         (\<exists>ys. out (snd (keyboard_release ev n w)) = xs @ ys) \<and>
         (\<exists>ys. out (snd (keyboard_type ev n w)) = xs @ ys)"
  using assms by (auto simp: keyboard_press_def keyboard_release_def keyboard_type_def)

lemma press_section_out_grows:
  "\<exists>ys. out w = xs @ ys \<Longrightarrow> \<exists>ys. out (snd (press_section ev s w)) = xs @ ys"
  unfolding press_section_def
  by (intro seq_snd_pres [where P = "\<lambda>w. \<exists>ys. out w = xs @ ys"]
        for_each_pres [where P = "\<lambda>w. \<exists>ys. out w = xs @ ys"])
     (simp_all add: keyboard_out_grows)

lemma press_keys_out_grows:
  "\<exists>ys. out w = xs @ ys \<Longrightarrow> \<exists>ys. out (snd (press_keys ev d p k w)) = xs @ ys"
  using for_each_pres [where P = "\<lambda>w. \<exists>ys. out w = xs @ ys" and f = "press_section ev"]
  by (simp add: press_keys_def get_button_keys_def button_state_def press_section_out_grows)

lemma press_write_out_grows:
  "\<exists>ys. out w = xs @ ys \<Longrightarrow> \<exists>ys. out (snd (press_write ev d p k w)) = xs @ ys"
  using keyboard_out_grows [of "w\<lparr>state := button_state_upd d p k (\<lambda>b. b) (state w)\<rparr>" xs]
  by (simp add: press_write_def get_button_write_def button_state_def)

lemma save_state_out_grows:
  "\<exists>ys. out w = xs @ ys \<Longrightarrow> \<exists>ys. out (snd (save_state ev w)) = xs @ ys"
  by (auto simp: save_state_def export_config_def)

lemma set_brightness_out_grows:
  "\<exists>ys. out w = xs @ ys \<Longrightarrow> \<exists>ys. out (snd (set_brightness ev d b w)) = xs @ ys"
  by (auto simp: set_brightness_def save_state_def export_config_def split: option.splits)

lemma press_brightness_out_grows:
  "\<exists>ys. out w = xs @ ys \<Longrightarrow> \<exists>ys. out (snd (press_brightness ev d p k w)) = xs @ ys"
  using set_brightness_out_grows [of "w\<lparr>state := button_state_upd d p k (\<lambda>b. b) (state w)\<rparr>" xs]
  by (simp add: press_brightness_def get_button_change_brightness_def button_state_def
      change_brightness_def)

lemma set_page_out_grows:
  "\<exists>ys. out w = xs @ ys \<Longrightarrow> \<exists>ys. out (snd (set_page ev d p w)) = xs @ ys"
  unfolding set_page_def
  by (rule seq_snd_pres [where P = "\<lambda>w. \<exists>ys. out w = xs @ ys"])
     (simp_all add: render_frame save_state_out_grows)

lemma press_switch_page_out_grows:
  "\<exists>ys. out w = xs @ ys \<Longrightarrow> \<exists>ys. out (snd (press_switch_page ev d p k w)) = xs @ ys"
  using set_page_out_grows [of "w\<lparr>state := button_state_upd d p k (\<lambda>b. b) (state w)\<rparr>" xs]
  by (simp add: press_switch_page_def get_button_switch_page_def button_state_def)

lemma after_command_out_grows:
  assumes "\<exists>ys. out w1 = xs @ ys"
  shows "\<exists>ys. out (snd (seq (press_keys ev d pg k w1) (\<lambda>_ w2.
           seq (press_write ev d pg k w2) (\<lambda>_ w3.
           seq (press_brightness ev d pg k w3) (\<lambda>_. press_switch_page ev d pg k))))) = xs @ ys"
  by (intro seq_snd_pres [where P = "\<lambda>w'. \<exists>ys. out w' = xs @ ys"]
        press_keys_out_grows press_write_out_grows press_brightness_out_grows
        press_switch_page_out_grows assms)

text \<open>
  C7, the claim as written fails: nothing catches the exception of \<^verbatim>\<open>Popen\<close>. On
  the key with all five actions, with a launcher that fails, the callback raises and has
  typed nothing, changed no brightness and switched no page. And the command is split at
  every single space, not at runs of whitespace: two spaces give an empty argument.
\<close>

theorem launch_failure_stops_the_press:
  "fst (key_change_callback ev_no_launch ''A1'' 2 True w_press) = Inl OSError \<and>
   out (snd (key_change_callback ev_no_launch ''A1'' 2 True w_press)) = [] \<and>
   state (snd (key_change_callback ev_no_launch ''A1'' 2 True w_press)) = state w_press \<and>
   write' (button_of (state w_press) ''A1'' 0 2) = Some ''hi'' \<and>
   split CHR '' '' ''ls  -l'' = [''ls'', [], ''-l'']"
  by (simp add: eval_defs w_press_def all_actions_def ev_ok_def ev_no_launch_def)

text \<open>
  C7 as amended: on a press of a key with a non-empty command, the callback launches the
  command with the arguments got by splitting it at every space character, before any other
  action. When the launch succeeds, the launch is the first thing the press does to the
  outside. When the launch raises, the exception leaves the callback: the callback has done
  nothing to the outside and none of keys, write, brightness change and page switch runs.
\<close>

theorem launch_failure_propagates:
  assumes "field_or (command (button_of (state w) d (get_page (state w) d) k)) [] \<noteq> []"
  shows "let pg = get_page (state w) d;
             args = split CHR '' '' (field_or (command (button_of (state w) d pg k)) [])
         in (popen_ok ev args \<longrightarrow>
               (\<exists>rest. out (snd (key_change_callback ev d k True w)) = out w @ Popen args # rest)) \<and>
            (\<not> popen_ok ev args \<longrightarrow>
               key_change_callback ev d k True w =
                 (Inl OSError, w\<lparr>state := button_state_upd d pg k (\<lambda>b. b) (state w)\<rparr>))"
proof -
  define pg where "pg = get_page (state w) d"
  define args where "args = split CHR '' '' (field_or (command (button_of (state w) d pg k)) [])"
  define w0 where "w0 = w\<lparr>state := button_state_upd d pg k (\<lambda>b. b) (state w)\<rparr>"
  have c: "field_or (command (button_of (state w) d pg k)) [] \<noteq> []"
    using assms by (simp add: pg_def)
  have fail: "key_change_callback ev d k True w = (Inl OSError, w0)" if "\<not> popen_ok ev args"
    using that c
    by (simp add: key_change_callback_def Let_def pg_def [symmetric] press_command_def
        get_button_command_def button_state_def popen_def args_def [symmetric] seq_def w0_def)
  have ok: "\<exists>rest. out (snd (key_change_callback ev d k True w)) = out w @ Popen args # rest"
    if p: "popen_ok ev args"
  proof -
    have 1: "press_command ev d pg k w = (Inr (), w0\<lparr>out := out w @ [Popen args]\<rparr>)"
      using p c
      by (simp add: press_command_def get_button_command_def button_state_def popen_def
          args_def [symmetric] w0_def)
    have 2: "\<exists>ys. out (w0\<lparr>out := out w @ [Popen args]\<rparr>) = (out w @ [Popen args]) @ ys"
      by simp
    have 3: "key_change_callback ev d k True w =
        seq (press_keys ev d pg k (w0\<lparr>out := out w @ [Popen args]\<rparr>)) (\<lambda>_ w2.
        seq (press_write ev d pg k w2) (\<lambda>_ w3.
        seq (press_brightness ev d pg k w3) (\<lambda>_. press_switch_page ev d pg k)))"
      unfolding key_change_callback_def Let_def pg_def [symmetric]
      by (simp add: 1 seq_def [of "(Inr (), w0\<lparr>out := out w @ [Popen args]\<rparr>)"])
    show ?thesis
      using after_command_out_grows [OF 2, of ev d pg k] unfolding 3 by simp
  qed
  show ?thesis
    unfolding Let_def pg_def [symmetric] args_def [symmetric] w0_def [symmetric]
    using fail ok by blast
qed

theorem launch_failure_propagates_witness:
  "field_or (command (button_of (state w_press) ''A1'' (get_page (state w_press) ''A1'') 2)) []
     = ''ls -l'' \<and>
   \<not> popen_ok ev_no_launch [''ls'', ''-l''] \<and>
   key_change_callback ev_no_launch ''A1'' 2 True w_press = (Inl OSError, w_press) \<and>
   popen_ok ev_ok [''ls'', ''-l''] \<and>
   (\<exists>rest. out (snd (key_change_callback ev_ok ''A1'' 2 True w_press)) =
      Popen [''ls'', ''-l''] # rest)"
proof -
  have c: "field_or (command (button_of (state w_press) ''A1'' (get_page (state w_press) ''A1'') 2)) []
     = ''ls -l''"
    by (simp add: w_press_def all_actions_def button_of_def get_page_def get_or_def field_or_def)
  then have h: "field_or (command (button_of (state w_press) ''A1''
      (get_page (state w_press) ''A1'') 2)) [] \<noteq> []"
    by simp
  have s: "button_state_upd ''A1'' 0 2 (\<lambda>b. b) (state w_press) = state w_press"
    by (simp add: button_state_upd_def button_of_def get_or_def field_or_def w_press_def)
  have p: "get_page (state w_press) ''A1'' = 0"
    by (simp add: w_press_def get_page_def get_or_def field_or_def)
  have o: "out w_press = []" by (simp add: w_press_def)
  show ?thesis
    using c launch_failure_propagates [OF h, of ev_no_launch]
      launch_failure_propagates [OF h, of ev_ok]
    by (simp add: Let_def p s o ev_no_launch_def ev_ok_def)
qed

subsection \<open>The loops visit the keys in view\<close>

text \<open>
  The nested loops of \<^verbatim>\<open>render_thread\<close> and of \<^verbatim>\<open>render\<close> are a
  \<open>for_each\<close> of their body over the keys in view, all of them and in order.
\<close>

lemma seq_cong_result:
  assumes "\<And>x w. m = (Inr x, w) \<Longrightarrow> f x w = g x w"
  shows "seq m f = seq m g"
proof (cases m)
  case (Pair r w)
  then show ?thesis using assms by (cases r) (simp_all add: seq_def)
qed

lemma for_each_append:
  "for_each f (xs @ ys) w = seq (for_each f xs w) (\<lambda>_. for_each f ys)"
proof (induction xs arbitrary: w)
  case Nil
  then show ?case by (simp add: seq_def)
next
  case (Cons x xs)
  obtain r w1 where r: "f x w = (r, w1)" by (cases "f x w")
  show ?case using Cons [of w1] by (cases r) (simp_all add: r seq_def)
qed

lemma draw_button_frame:
  "state (snd (draw_button ev t dk d p b w)) = state w \<and>
   decks (snd (draw_button ev t dk d p b w)) = decks w \<and>
   lock_held (snd (draw_button ev t dk d p b w)) = lock_held w"
  by (simp add: draw_button_def advance_and_draw_def set_key_image_def Let_def
      split: option.splits)

lemma draw_item_frame:
  "state (snd (draw_item ev t v w)) = state w \<and> decks (snd (draw_item ev t v w)) = decks w"
proof -
  obtain dk k s where v: "v = (dk, k, s)" by (cases v)
  obtain d p b where k: "k = (d, p, b)" by (cases k)
  show ?thesis by (simp add: v k draw_button_frame)
qed

lemma draw_buttons_items:
  "draw_buttons ev t dk d p items w =
     for_each (draw_item ev t) (map (\<lambda>(b, s). (dk, (d, p, b), s)) items) w"
proof (induction items arbitrary: w)
  case Nil
  then show ?case by simp
next
  case (Cons a items)
  obtain b s where a: "a = (b, s)" by (cases a)
  show ?case by (simp add: a) (rule seq_cong_result, rule Cons)
qed

lemma draw_decks_view:
  assumes "state w' = st" and "decks w' = dks"
  shows "draw_decks ev t dl w' = for_each (draw_item ev t) (view_of st dks dl) w'"
  using assms
proof (induction dl arbitrary: w')
  case Nil
  then show ?case by simp
next
  case (Cons a dl)
  obtain d ds where a: "a = (d, ds)" by (cases a)
  show ?case
  proof (cases "dks d")
    case None
    then show ?thesis using Cons by (simp add: a)
  next
    case (Some dk)
    let ?items = "map (\<lambda>(b, s). (dk, (d, get_page st d, b), s)) (page_items ds (get_page st d))"
    have rest: "draw_decks ev t dl w2 = for_each (draw_item ev t) (view_of st dks dl) w2"
      if "for_each (draw_item ev t) ?items w' = (Inr x, w2)" for x w2
    proof -
      have "state (snd (for_each (draw_item ev t) ?items w')) = st \<and>
            decks (snd (for_each (draw_item ev t) ?items w')) = dks"
        by (rule for_each_pres [where P = "\<lambda>w. state w = st \<and> decks w = dks"])
           (simp_all add: draw_item_frame Cons.prems)
      then have "state w2 = st \<and> decks w2 = dks" by (simp add: that)
      then show ?thesis by (intro Cons.IH) simp_all
    qed
    have "draw_decks ev t (a # dl) w' =
        seq (for_each (draw_item ev t) ?items w') (\<lambda>_. draw_decks ev t dl)"
      using Cons.prems by (simp add: a Some draw_buttons_items)
    also have "\<dots> = seq (for_each (draw_item ev t) ?items w')
        (\<lambda>_. for_each (draw_item ev t) (view_of st dks dl))"
      by (rule seq_cong_result) (rule rest)
    also have "\<dots> = for_each (draw_item ev t) (view_of st dks (a # dl)) w'"
      by (simp add: a Some for_each_append)
    finally show ?thesis .
  qed
qed

lemma render_item_frame:
  "state (snd (render_item ev v w)) = state w \<and> decks (snd (render_item ev v w)) = decks w"
proof -
  obtain dk k s where v: "v = (dk, k, s)" by (cases v)
  obtain d p b where k: "k = (d, p, b)" by (cases k)
  show ?thesis by (simp add: v k render_button_frame)
qed

lemma render_buttons_items:
  "render_buttons ev dk d p items w =
     for_each (render_item ev) (map (\<lambda>(b, s). (dk, (d, p, b), s)) items) w"
proof (induction items arbitrary: w)
  case Nil
  then show ?case by simp
next
  case (Cons a items)
  obtain b s where a: "a = (b, s)" by (cases a)
  show ?case by (simp add: a) (rule seq_cong_result, rule Cons)
qed

lemma render_decks_view:
  assumes "state w' = st" and "decks w' = dks"
  shows "render_decks ev dl w' = for_each (render_item ev) (view_of st dks dl) w'"
  using assms
proof (induction dl arbitrary: w')
  case Nil
  then show ?case by simp
next
  case (Cons a dl)
  obtain d ds where a: "a = (d, ds)" by (cases a)
  show ?case
  proof (cases "dks d")
    case None
    then show ?thesis using Cons by (simp add: a)
  next
    case (Some dk)
    let ?items = "map (\<lambda>(b, s). (dk, (d, get_page st d, b), s)) (page_items ds (get_page st d))"
    have rest: "render_decks ev dl w2 = for_each (render_item ev) (view_of st dks dl) w2"
      if "for_each (render_item ev) ?items w' = (Inr x, w2)" for x w2
    proof -
      have "state (snd (for_each (render_item ev) ?items w')) = st \<and>
            decks (snd (for_each (render_item ev) ?items w')) = dks"
        by (rule for_each_pres [where P = "\<lambda>w. state w = st \<and> decks w = dks"])
           (simp_all add: render_item_frame Cons.prems)
      then have "state w2 = st \<and> decks w2 = dks" by (simp add: that)
      then show ?thesis by (intro Cons.IH) simp_all
    qed
    have "render_decks ev (a # dl) w' =
        seq (for_each (render_item ev) ?items w') (\<lambda>_. render_decks ev dl)"
      using Cons.prems by (simp add: a Some render_buttons_items)
    also have "\<dots> = seq (for_each (render_item ev) ?items w')
        (\<lambda>_. for_each (render_item ev) (view_of st dks dl))"
      by (rule seq_cong_result) (rule rest)
    also have "\<dots> = for_each (render_item ev) (view_of st dks (a # dl)) w'"
      by (simp add: a Some for_each_append)
    finally show ?thesis .
  qed
qed

subsection \<open>One iteration of the render thread\<close>

text \<open>
  In a world where the iteration runs to its end, it leaves the cache \<open>scan_cache\<close>
  and has pushed \<open>scan_draws\<close>: every entry in view has made its step, and the pushes
  to a key position are those of the key in view at that position.
\<close>

lemma cache_entry_rebuilt:
  "\<lparr>image = image e, fps = fps e, next_time = a, frame = b\<rparr> = e\<lparr>next_time := a, frame := b\<rparr>"
  by (cases e) simp

lemma world_same: "w\<lparr>image_cache := image_cache w, out := out w\<rparr> = w"
  by simp

lemma draw_button_effect:
  assumes "deck_ok ev dk"
    and "case image_cache w (d, p, b) of None \<Rightarrow> True
         | Some e \<Rightarrow> py_index (image e) (frame e) \<noteq> None"
  shows "draw_button ev t dk d p b w =
           (Inr (), w\<lparr>image_cache := (image_cache w)((d, p, b) :=
                        map_option (step t) (image_cache w (d, p, b))),
                      out := out w @ drawn t dk b (image_cache w (d, p, b))\<rparr>)"
proof (cases "image_cache w (d, p, b)")
  case None
  then have "(image_cache w)((d, p, b) := None) = image_cache w"
    by (simp add: fun_upd_idem)
  then show ?thesis using None by (simp add: draw_button_def drawn_def)
next
  case (Some e)
  then obtain img where i: "py_index (image e) (frame e) = Some img"
    using assms(2) by auto
  then have n: "length (image e) \<noteq> 0"
    by (auto simp: py_index_def split: if_splits)
  have same: "w\<lparr>image_cache := (image_cache w)((d, p, b) \<mapsto> e), out := out w\<rparr> = w"
    using Some by (simp add: fun_upd_idem)
  show ?thesis
    using Some i n assms(1) same
    by (cases e)
      (auto simp: draw_button_def advance_and_draw_def set_key_image_def Let_def drawn_def
        step_def due_def advanced_def)
qed

lemma draw_item_effect:
  assumes "deck_ok ev (handle v)" and "entry_ok (image_cache w) v"
  shows "draw_item ev t v w =
           (Inr (), w\<lparr>image_cache := (image_cache w)(item_key v :=
                        map_option (step t) (image_cache w (item_key v))),
                      out := out w @ drawn t (handle v) (button_id v)
                                       (image_cache w (item_key v))\<rparr>)"
proof -
  obtain dk k s where v: "v = (dk, k, s)" by (cases v)
  obtain d p b where k: "k = (d, p, b)" by (cases k)
  show ?thesis
    using assms draw_button_effect [of ev dk w d p b t]
    by (simp add: v k entry_ok_def)
qed

lemma for_each_draw:
  assumes "distinct (map item_key vs)" and "list_all (\<lambda>v. deck_ok ev (handle v)) vs"
    and "list_all (entry_ok (image_cache w)) vs"
  shows "for_each (draw_item ev t) vs w =
           (Inr (), w\<lparr>image_cache := scan_cache t vs (image_cache w),
                      out := out w @ scan_draws t vs (image_cache w)\<rparr>)"
  using assms
proof (induction vs arbitrary: w)
  case Nil
  then show ?case by (simp add: scan_cache_def scan_draws_def)
next
  case (Cons v vs)
  let ?c = "image_cache w"
  let ?c1 = "?c(item_key v := map_option (step t) (?c (item_key v)))"
  let ?o1 = "out w @ drawn t (handle v) (button_id v) (?c (item_key v))"
  let ?w1 = "w\<lparr>image_cache := ?c1, out := ?o1\<rparr>"
  have 1: "draw_item ev t v w = (Inr (), ?w1)"
    using Cons.prems by (intro draw_item_effect) simp_all
  have nk: "item_key v \<notin> item_key ` set vs" using Cons.prems(1) by auto
  have same: "?c1 (item_key v') = ?c (item_key v')" if "v' \<in> set vs" for v'
  proof -
    have "item_key v' \<in> item_key ` set vs" using that by (rule imageI)
    then have "item_key v' \<noteq> item_key v" using nk by metis
    then show ?thesis by simp
  qed
  have ok1: "list_all (entry_ok (image_cache ?w1)) vs"
    using Cons.prems(3) same by (auto simp: list_all_iff entry_ok_def)
  have 2: "for_each (draw_item ev t) vs ?w1 =
      (Inr (), ?w1\<lparr>image_cache := scan_cache t vs (image_cache ?w1),
                   out := out ?w1 @ scan_draws t vs (image_cache ?w1)\<rparr>)"
  proof -
    have d': "distinct (map item_key vs)" using Cons.prems(1) by simp
    have k': "list_all (\<lambda>v. deck_ok ev (handle v)) vs" using Cons.prems(2) by simp
    show ?thesis by (rule Cons.IH [OF d' k' ok1])
  qed
  have c: "scan_cache t vs ?c1 = scan_cache t (v # vs) ?c"
    using nk by (auto simp: scan_cache_def fun_eq_iff)
  have "map (\<lambda>v'. drawn t (handle v') (button_id v') (?c1 (item_key v'))) vs =
        map (\<lambda>v'. drawn t (handle v') (button_id v') (?c (item_key v'))) vs"
    by (rule map_cong) (simp_all only: same)
  then have d: "scan_draws t vs ?c1 = scan_draws t vs ?c"
    by (simp only: scan_draws_def)
  have e: "?o1 @ scan_draws t vs ?c = out w @ scan_draws t (v # vs) ?c"
    by (simp add: scan_draws_def)
  have "for_each (draw_item ev t) (v # vs) w = for_each (draw_item ev t) vs ?w1"
    by (simp add: 1 seq_def)
  also have "\<dots> = (Inr (), w\<lparr>image_cache := scan_cache t vs ?c1,
      out := ?o1 @ scan_draws t vs ?c1\<rparr>)"
    using 2 by simp
  also have "\<dots> = (Inr (), w\<lparr>image_cache := scan_cache t (v # vs) ?c,
      out := out w @ scan_draws t (v # vs) ?c\<rparr>)"
    by (simp only: c d e)
  finally show ?case .
qed

lemma tick_spec:
  assumes "scan_ok ev w"
  shows "render_thread_tick ev t w =
           (Inr (), w\<lparr>image_cache := scan_cache t (view w) (image_cache w),
                      out := out w @ scan_draws t (view w) (image_cache w)\<rparr>)"
proof -
  let ?w = "w\<lparr>lock_held := True\<rparr>"
  have l: "\<not> lock_held w" using assms by (simp add: scan_ok_def view_ok_def)
  have "draw_decks ev t (state w) ?w = for_each (draw_item ev t) (view w) ?w"
    unfolding view_def by (rule draw_decks_view) simp_all
  also have "\<dots> = (Inr (), ?w\<lparr>image_cache := scan_cache t (view w) (image_cache ?w),
                      out := out ?w @ scan_draws t (view w) (image_cache ?w)\<rparr>)"
    using assms by (intro for_each_draw) (simp_all add: scan_ok_def view_ok_def)
  finally have d: "draw_decks ev t (state w) ?w =
      (Inr (), ?w\<lparr>image_cache := scan_cache t (view w) (image_cache w),
                      out := out w @ scan_draws t (view w) (image_cache w)\<rparr>)"
    by simp
  have u: "w\<lparr>lock_held := False\<rparr> = w" using l by simp
  have "render_thread_tick ev t w =
      (Inr (), w\<lparr>lock_held := False, image_cache := scan_cache t (view w) (image_cache w),
                      out := out w @ scan_draws t (view w) (image_cache w)\<rparr>)"
    using l by (simp add: render_thread_tick_def d seq_def)
  then show ?thesis by (simp only: u)
qed

lemma scan_cache_key:
  "v \<in> set vs \<Longrightarrow> scan_cache t vs c (item_key v) = map_option (step t) (c (item_key v))"
  by (simp add: scan_cache_def)

lemma draws_on_append: "draws_on dk b (xs @ ys) = draws_on dk b xs @ draws_on dk b ys"
  by (simp add: draws_on_def)

lemma draws_on_drawn:
  "draws_on dk b (drawn t dk' b' eo) = (if dk' = dk \<and> b' = b then drawn t dk' b' eo else [])"
  by (simp add: draws_on_def drawn_def split: option.splits)

lemma draws_on_others:
  "(dk, b) \<notin> target ` set vs \<Longrightarrow> draws_on dk b (scan_draws t vs c) = []"
proof (induction vs)
  case Nil
  then show ?case by (simp add: scan_draws_def draws_on_def)
next
  case (Cons v vs)
  then have "(handle v, button_id v) \<noteq> (dk, b)" and "(dk, b) \<notin> target ` set vs"
    by (auto simp: target_def)
  then show ?case
    using Cons.IH by (auto simp: scan_draws_def draws_on_append draws_on_drawn)
qed

lemma draws_on_own:
  assumes "distinct (map target vs)" and "v \<in> set vs"
  shows "draws_on (handle v) (button_id v) (scan_draws t vs c) =
           drawn t (handle v) (button_id v) (c (item_key v))"
  using assms
proof (induction vs)
  case Nil
  then show ?case by simp
next
  case (Cons a vs)
  have sd: "scan_draws t (a # vs) c =
      drawn t (handle a) (button_id a) (c (item_key a)) @ scan_draws t vs c"
    by (simp add: scan_draws_def)
  show ?case
  proof (cases "v = a")
    case True
    have "target a \<notin> target ` set vs" using Cons.prems(1) by simp
    then have "draws_on (handle a) (button_id a) (scan_draws t vs c) = []"
      by (intro draws_on_others) (simp add: target_def)
    then show ?thesis by (simp add: True sd draws_on_append draws_on_drawn)
  next
    case False
    then have m: "v \<in> set vs" using Cons.prems(2) by simp
    have "target a \<notin> target ` set vs" using Cons.prems(1) by simp
    then have "target a \<noteq> target v" using m by (metis imageI)
    then have ne: "\<not> (handle a = handle v \<and> button_id a = button_id v)"
      by (auto simp: target_def)
    have "distinct (map target vs)" using Cons.prems(1) by simp
    then show ?thesis
      using Cons.IH m ne by (auto simp: sd draws_on_append draws_on_drawn)
  qed
qed

lemma step_valid:
  assumes "py_index (image e) (frame e) \<noteq> None"
  shows "py_index (image (step t e)) (frame (step t e)) \<noteq> None"
proof (cases "due t e")
  case False
  then show ?thesis using assms by (simp add: step_def)
next
  case True
  have n: "0 < int (length (image e))"
    using assms by (auto simp: py_index_def split: if_splits)
  then have "0 \<le> (frame e + 1) mod int (length (image e)) \<and>
      (frame e + 1) mod int (length (image e)) < int (length (image e))"
    by simp
  then show ?thesis
    using True by (simp add: step_def advanced_def py_index_def)
qed

lemma scan_cache_entries_ok:
  assumes "list_all (entry_ok c) vs"
  shows "list_all (entry_ok (scan_cache t vs c)) vs"
  unfolding list_all_iff
proof
  fix v assume v: "v \<in> set vs"
  then have ok: "entry_ok c v" using assms by (simp add: list_all_iff)
  show "entry_ok (scan_cache t vs c) v"
  proof (cases "c (item_key v)")
    case None
    then show ?thesis using v by (simp add: entry_ok_def scan_cache_def)
  next
    case (Some e)
    then have "py_index (image e) (frame e) \<noteq> None" using ok by (simp add: entry_ok_def)
    then have "py_index (image (step t e)) (frame (step t e)) \<noteq> None" by (rule step_valid)
    then show ?thesis using v Some by (simp add: entry_ok_def scan_cache_def)
  qed
qed

lemma tick_key:
  assumes "scan_ok ev w" and "v \<in> set (view w)" and "image_cache w (item_key v) = Some e"
  shows "\<exists>w'. render_thread_tick ev t w = (Inr (), w') \<and> scan_ok ev w' \<and> view w' = view w \<and>
           state w' = state w \<and> decks w' = decks w \<and>
           image_cache w' (item_key v) = Some (step t e) \<and>
           draws_on (handle v) (button_id v) (out w') =
             draws_on (handle v) (button_id v) (out w)
             @ (if due t e
                then [DeckSetKeyImage (handle v) (button_id v) (the (py_index (image e) (frame e)))]
                else [])"
proof -
  let ?w' = "w\<lparr>image_cache := scan_cache t (view w) (image_cache w),
               out := out w @ scan_draws t (view w) (image_cache w)\<rparr>"
  have 1: "render_thread_tick ev t w = (Inr (), ?w')"
    using assms(1) by (rule tick_spec)
  have 2: "view ?w' = view w" by (simp add: view_def)
  have 3: "scan_ok ev ?w'"
    using assms(1) scan_cache_entries_ok [of "image_cache w" "view w" t]
    by (simp add: scan_ok_def view_ok_def 2)
  have 4: "image_cache ?w' (item_key v) = Some (step t e)"
    using assms(2,3) by (simp add: scan_cache_key)
  have "distinct (map target (view w))"
    using assms(1) by (simp add: scan_ok_def view_ok_def)
  then have "draws_on (handle v) (button_id v) (scan_draws t (view w) (image_cache w)) =
      drawn t (handle v) (button_id v) (image_cache w (item_key v))"
    using assms(2) by (rule draws_on_own)
  then have 5: "draws_on (handle v) (button_id v) (out ?w') =
      draws_on (handle v) (button_id v) (out w)
      @ (if due t e
         then [DeckSetKeyImage (handle v) (button_id v) (the (py_index (image e) (frame e)))]
         else [])"
    by (simp add: draws_on_append assms(3) drawn_def)
  show ?thesis
    using 1 2 3 4 5 by (intro exI [of _ ?w']) simp
qed

lemma render_thread_append:
  "render_thread ev (xs @ ys) w = seq (render_thread ev xs w) (\<lambda>_. render_thread ev ys)"
proof (induction xs arbitrary: w)
  case Nil
  then show ?case by (simp add: seq_def)
next
  case (Cons t xs)
  obtain r w1 where r: "render_thread_tick ev t w = (r, w1)"
    by (cases "render_thread_tick ev t w")
  show ?case using Cons [of w1] by (cases r) (simp_all add: r seq_def)
qed

lemma render_thread_single: "render_thread ev [t] w = render_thread_tick ev t w"
proof -
  obtain r w1 where r: "render_thread_tick ev t w = (r, w1)"
    by (cases "render_thread_tick ev t w")
  show ?thesis by (cases r) (simp_all add: r seq_def)
qed

subsection \<open>Floats that are integers\<close>

text \<open>
  An integer below \<open>2 ^ 53\<close> in absolute value is a double, so rounding leaves it as it
  is: at 10 frames per second the due time \<^verbatim>\<open>current_time + 1000/fps\<close> is the integer
  \<open>t + 100\<close>. At a rate that is not a divisor of 1000 the quotient is rounded: a frame
  of 90 ms has the rate \<^verbatim>\<open>1000/90\<close>, and \<^verbatim>\<open>1000/(1000/90)\<close> is again 90.
\<close>

lemma round_half_even_int: "round_half_even (of_int k) = k"
  by (simp add: round_half_even_def)

lemma scale2_int_up:
  "e \<le> 0 \<Longrightarrow> scale2 (of_int n) (- e) = of_int (n * 2 ^ nat (- e))"
  by (simp add: scale2_def)

lemma scale2_back:
  "e \<le> 0 \<Longrightarrow> scale2 (of_int (n * 2 ^ nat (- e))) e = of_int n"
  by (cases "e = 0") (simp_all add: scale2_def)

lemma binade_int_le:
  assumes "\<bar>n\<bar> < 2 ^ 53"
  shows "binade (of_int n) \<le> 52"
proof -
  have "bitlen \<bar>n\<bar> \<le> 53"
    using assms by (simp add: bitlen_le_iff_power)
  moreover have "bitlen 1 = 1"
    by (simp add: bitlen_alt_def)
  ultimately show ?thesis
    by (simp add: binade_def quotient_of_int Let_def)
qed

lemma round_double_int:
  assumes "\<bar>n\<bar> < 2 ^ 53"
  shows "round_double (of_int n) = of_int n"
proof (cases "n = 0")
  case True
  then show ?thesis by (simp add: round_double_def)
next
  case False
  define e where "e = max (binade (of_int n) - 52) (- 1074)"
  have e: "e \<le> 0" using binade_int_le [OF assms] by (simp add: e_def)
  have "round_double (of_int n) =
      scale2 (of_int (round_half_even (scale2 (of_int n) (- e)))) e"
    using False by (simp add: round_double_def e_def Let_def)
  also have "\<dots> = of_int n"
    by (simp only: scale2_int_up [OF e] round_half_even_int scale2_back [OF e])
  finally show ?thesis .
qed

lemma float_due_time:
  assumes "0 \<le> t" and "t < 2 ^ 52"
  shows "float_add (float_of_int t) (float_div 1000 10) = of_int (t + 100)"
proof -
  have 1: "float_div 1000 10 = of_int 100"
    using round_double_int [of 100] by (simp add: float_div_def)
  have 2: "float_of_int t = of_int t"
    unfolding float_of_int_def using assms by (intro round_double_int) simp
  have "round_double (of_int (t + 100)) = of_int (t + 100)"
    using assms by (intro round_double_int) simp
  then have 3: "float_add (of_int t) (of_int 100) = of_int (t + 100)"
    by (simp add: float_add_def)
  show ?thesis by (simp only: 1 2 3)
qed

lemma ninety_ms_frame:
  "float_add (float_of_int 0) (float_div 1000 (float_div 1000 90)) = 90"
  by code_simp

subsection \<open>Animated entries\<close>

lemma ticks_Suc: "ticks t0 (Suc n) = ticks t0 n @ [t0 + 10 * int n]"
  by (simp add: ticks_def)

lemma next_frame: "(int (m mod 5) + 1) mod 5 = int (Suc m mod 5)"
proof -
  have "int (Suc m mod 5) = (int m + 1) mod 5"
    by (simp add: zmod_int add.commute)
  also have "\<dots> = (int m mod 5 + 1) mod 5"
    by (simp add: mod_add_left_eq)
  finally show ?thesis by (simp add: zmod_int)
qed

lemma tenth_tick:
  assumes "Suc n mod 10 = 0"
  shows "Suc n div 10 = Suc (n div 10) \<and> 10 * int (Suc n) = 100 * int (n div 10) + 100"
proof -
  define q where "q = n div 10"
  have d: "Suc n div 10 = Suc q" using assms by (simp add: div_Suc q_def)
  have "Suc n = 10 * (Suc n div 10) + Suc n mod 10" by (rule mult_div_mod_eq [symmetric])
  then have "Suc n = 10 * q + 10" unfolding d assms by simp
  then have "int (Suc n) = int (10 * q + 10)" by (rule arg_cong)
  then have "int (Suc n) = 10 * int q + 10" by simp
  then have "10 * int (Suc n) = 10 * (10 * int q + 10)" by (rule arg_cong)
  then have "10 * int (Suc n) = 100 * int q + 100" by simp
  then show ?thesis using d unfolding q_def by blast
qed

lemma other_tick:
  assumes "Suc n mod 10 \<noteq> 0"
  shows "Suc n div 10 = n div 10 \<and> 10 * int (Suc n) < 100 * int (n div 10) + 100"
proof -
  define q where "q = n div 10"
  define r where "r = Suc n mod 10"
  have d: "Suc n div 10 = q" using assms by (simp add: div_Suc q_def)
  have "Suc n = 10 * (Suc n div 10) + Suc n mod 10" by (rule mult_div_mod_eq [symmetric])
  then have 1: "Suc n = 10 * q + r" unfolding d r_def .
  have 2: "r < 10" unfolding r_def by simp
  have "Suc n < 10 * q + 10" using 1 2 by linarith
  then have "int (Suc n) < int (10 * q + 10)" by (simp only: of_nat_less_iff)
  then have "int (Suc n) < 10 * int q + 10" by simp
  then have "10 * int (Suc n) < 10 * (10 * int q + 10)" by simp
  then have "10 * int (Suc n) < 100 * int q + 100" by simp
  then show ?thesis using d unfolding q_def by blast
qed

lemma run_anim:
  assumes ok: "scan_ok ev w" and v: "v \<in> set (view w)"
    and c: "image_cache w (item_key v) = Some e"
    and e: "fps e = 10" "length (image e) = 5" "next_time e = 0" "frame e = 0"
    and t0: "0 \<le> t0" "t0 < 2 ^ 51"
  shows "n < 200 \<Longrightarrow>
    \<exists>w'. render_thread ev (ticks t0 (Suc n)) w = (Inr (), w') \<and> scan_ok ev w' \<and>
      view w' = view w \<and>
      image_cache w' (item_key v) =
        Some (e\<lparr>next_time := of_int (t0 + 100 * int (n div 10) + 100),
               frame := int (Suc (n div 10) mod 5)\<rparr>) \<and>
      draws_on (handle v) (button_id v) (out w') =
        draws_on (handle v) (button_id v) (out w)
        @ map (\<lambda>j. DeckSetKeyImage (handle v) (button_id v) (image e ! (j mod 5)))
            [0..<Suc (n div 10)]"
proof (induction n)
  case 0
  have d: "due t0 e" using e t0 by (simp add: due_def)
  have s: "step t0 e = e\<lparr>next_time := of_int (t0 + 100), frame := 1\<rparr>"
    using d e float_due_time [of t0] t0 by (simp add: step_def advanced_def)
  have i: "the (py_index (image e) (frame e)) = image e ! 0"
    using e by (simp add: py_index_def)
  from tick_key [OF ok v c, of t0] obtain w' where
    "render_thread_tick ev t0 w = (Inr (), w')" "scan_ok ev w'" "view w' = view w"
    "image_cache w' (item_key v) = Some (step t0 e)"
    "draws_on (handle v) (button_id v) (out w') =
       draws_on (handle v) (button_id v) (out w)
       @ (if due t0 e
          then [DeckSetKeyImage (handle v) (button_id v) (the (py_index (image e) (frame e)))]
          else [])"
    by blast
  then show ?case
    by (intro exI [of _ w']) (simp add: ticks_def seq_def d s i)
next
  case (Suc n)
  let ?m = "n div 10"
  let ?t = "t0 + 10 * int (Suc n)"
  let ?e = "e\<lparr>next_time := of_int (t0 + 100 * int ?m + 100), frame := int (Suc ?m mod 5)\<rparr>"
  let ?D = "map (\<lambda>j. DeckSetKeyImage (handle v) (button_id v) (image e ! (j mod 5)))"
  from Suc obtain w1 where
    r1: "render_thread ev (ticks t0 (Suc n)) w = (Inr (), w1)" and ok1: "scan_ok ev w1"
    and v1: "view w1 = view w" and c1: "image_cache w1 (item_key v) = Some ?e"
    and o1: "draws_on (handle v) (button_id v) (out w1) =
        draws_on (handle v) (button_id v) (out w) @ ?D [0..<Suc ?m]"
    by auto
  have vin: "v \<in> set (view w1)" using v v1 by simp
  from tick_key [OF ok1 vin c1, of ?t] obtain w2 where
    r2: "render_thread_tick ev ?t w1 = (Inr (), w2)" and ok2: "scan_ok ev w2"
    and v2: "view w2 = view w1" and c2: "image_cache w2 (item_key v) = Some (step ?t ?e)"
    and o2: "draws_on (handle v) (button_id v) (out w2) =
       draws_on (handle v) (button_id v) (out w1)
       @ (if due ?t ?e
          then [DeckSetKeyImage (handle v) (button_id v) (the (py_index (image ?e) (frame ?e)))]
          else [])"
    by blast
  have "render_thread ev (ticks t0 (Suc (Suc n))) w =
      seq (render_thread ev (ticks t0 (Suc n)) w) (\<lambda>_. render_thread ev [?t])"
    by (simp only: ticks_Suc [of t0 "Suc n"] render_thread_append)
  also have "\<dots> = render_thread ev [?t] w1"
    by (simp only: r1 seq_def prod.case sum.case)
  also have "\<dots> = render_thread_tick ev ?t w1"
    by (rule render_thread_single)
  finally have run: "render_thread ev (ticks t0 (Suc (Suc n))) w = (Inr (), w2)"
    by (simp only: r2)
  have tb: "0 \<le> ?t" "?t < 2 ^ 52"
    using t0 Suc.prems by simp_all
  have i: "the (py_index (image ?e) (frame ?e)) = image e ! (Suc ?m mod 5)"
    using e by (simp add: py_index_def)
  have vv: "view w2 = view w" using v2 v1 by simp
  show ?case
  proof (cases "Suc n mod 10 = 0")
    case True
    have d: "Suc n div 10 = Suc ?m" and q: "10 * int (Suc n) = 100 * int ?m + 100"
      using tenth_tick [OF True] by simp_all
    have du: "due ?t ?e" using e q by (simp add: due_def)
    have nt: "(of_int (?t + 100) :: rat) = of_int (t0 + 100 * int (Suc ?m) + 100)"
      using q by simp
    have s: "step ?t ?e = e\<lparr>next_time := of_int (t0 + 100 * int (Suc ?m) + 100),
        frame := int (Suc (Suc ?m) mod 5)\<rparr>"
      using du e float_due_time [OF tb] nt
      by (simp add: step_def advanced_def next_frame)
    have up: "?D [0..<Suc (Suc ?m)] =
        ?D [0..<Suc ?m] @ [DeckSetKeyImage (handle v) (button_id v) (image e ! (Suc ?m mod 5))]"
      by simp
    have c2': "image_cache w2 (item_key v) =
        Some (e\<lparr>next_time := of_int (t0 + 100 * int (Suc ?m) + 100),
               frame := int (Suc (Suc ?m) mod 5)\<rparr>)"
      using c2 by (simp only: s)
    have o2': "draws_on (handle v) (button_id v) (out w2) =
        draws_on (handle v) (button_id v) (out w) @ ?D [0..<Suc (Suc ?m)]"
      using o2 du by (simp only: o1 if_True i up append_assoc)
    show ?thesis
      unfolding d using run ok2 vv c2' o2' by blast
  next
    case False
    have d: "Suc n div 10 = ?m" and q: "10 * int (Suc n) < 100 * int ?m + 100"
      using other_tick [OF False] by simp_all
    have du: "\<not> due ?t ?e" using e q by (simp add: due_def)
    have s: "step ?t ?e = ?e" using du by (simp add: step_def)
    have c2': "image_cache w2 (item_key v) = Some ?e"
      using c2 by (simp only: s)
    have o2': "draws_on (handle v) (button_id v) (out w2) =
        draws_on (handle v) (button_id v) (out w) @ ?D [0..<Suc ?m]"
      using o2 du by (simp only: o1 if_False append_Nil2)
    show ?thesis
      unfolding d using run ok2 vv c2' o2' by blast
  qed
qed

lemma run_anim_200:
  assumes "scan_ok ev w" and "v \<in> set (view w)"
    and "image_cache w (item_key v) = Some e"
    and "fps e = 10" "length (image e) = 5" "next_time e = 0" "frame e = 0"
    and "0 \<le> t0" "t0 < 2 ^ 51"
  shows "\<exists>w'. render_thread ev (ticks t0 200) w = (Inr (), w') \<and>
      draws_on (handle v) (button_id v) (out w') =
        draws_on (handle v) (button_id v) (out w)
        @ map (\<lambda>j. DeckSetKeyImage (handle v) (button_id v) (image e ! (j mod 5))) [0..<20]"
proof -
  have a: "(199::nat) < 200" by simp
  have b: "Suc 199 = 200" by simp
  have c: "Suc (199 div 10) = 20" by simp
  from run_anim [OF assms a] show ?thesis
    unfolding b c by blast
qed

lemma view_w_anim:
  "view w_anim = [(11, (''A1'', 0, 4), empty_button\<lparr>icon := Some ''spin.gif''\<rparr>)]"
  by (simp add: view_def w_anim_def get_page_def page_items_def get_or_def field_or_def
      empty_deck_def)

lemma view_w_anim_later: "view w_anim_later = view w_anim"
  by (simp add: view_def w_anim_later_def)

text \<open>
  C1: in a world where an iteration of the render thread runs to its end, for every key in
  view whose entry has a rate above 0, an iteration at a clock reading at or past the due
  time of the entry pushes the frame at the stored index to the key position of the device,
  and stores as due time the float sum of the clock reading and of the float quotient
  \<^verbatim>\<open>1000/fps\<close>, and as frame index the stored index plus 1 modulo the number of frames;
  an iteration at a reading before the due time pushes nothing to that key position and
  leaves the entry as it is. Either way the world it leaves is again one where an iteration
  runs to its end, with the same keys in view. And for an entry of 5 frames at 10 frames
  per second, as \<^verbatim>\<open>render\<close> leaves it, 200 iterations at readings 10 ms apart push
  exactly 20 frames to that key position, those at the indices 0, 1, 2, 3, 4, 0, 1 and so
  on.
\<close>

theorem animated_entry_advances:
  assumes "scan_ok ev w" and "(dk, (d, p, b), s) \<in> set (view w)"
    and "image_cache w (d, p, b) = Some e" and "0 < fps e"
  shows "(\<exists>w'. render_thread_tick ev t w = (Inr (), w') \<and> scan_ok ev w' \<and> view w' = view w \<and>
            (if next_time e \<le> of_int t
             then image_cache w' (d, p, b) =
                    Some (e\<lparr>next_time := float_add (float_of_int t) (float_div 1000 (fps e)),
                           frame := (frame e + 1) mod int (length (image e))\<rparr>) \<and>
                  draws_on dk b (out w') =
                    draws_on dk b (out w)
                    @ [DeckSetKeyImage dk b (the (py_index (image e) (frame e)))]
             else image_cache w' (d, p, b) = Some e \<and>
                  draws_on dk b (out w') = draws_on dk b (out w))) \<and>
         (fps e = 10 \<and> length (image e) = 5 \<and> next_time e = 0 \<and> frame e = 0 \<and>
          0 \<le> t0 \<and> t0 < 2 ^ 51 \<longrightarrow>
            (\<exists>w'. render_thread ev (ticks t0 200) w = (Inr (), w') \<and>
               draws_on dk b (out w') =
                 draws_on dk b (out w)
                 @ map (\<lambda>j. DeckSetKeyImage dk b (image e ! (j mod 5))) [0..<20]))"
proof (intro conjI impI)
  let ?v = "(dk, (d, p, b), s)"
  have c: "image_cache w (item_key ?v) = Some e" using assms(3) by simp
  have f: "fps e \<noteq> 0" using assms(4) by simp
  from tick_key [OF assms(1,2) c, of t] obtain w' where
    r: "render_thread_tick ev t w = (Inr (), w')" and ok: "scan_ok ev w'"
    and vw: "view w' = view w" and c': "image_cache w' (d, p, b) = Some (step t e)"
    and o': "draws_on dk b (out w') = draws_on dk b (out w)
       @ (if due t e then [DeckSetKeyImage dk b (the (py_index (image e) (frame e)))] else [])"
    by auto
  show "\<exists>w'. render_thread_tick ev t w = (Inr (), w') \<and> scan_ok ev w' \<and> view w' = view w \<and>
            (if next_time e \<le> of_int t
             then image_cache w' (d, p, b) =
                    Some (e\<lparr>next_time := float_add (float_of_int t) (float_div 1000 (fps e)),
                           frame := (frame e + 1) mod int (length (image e))\<rparr>) \<and>
                  draws_on dk b (out w') =
                    draws_on dk b (out w)
                    @ [DeckSetKeyImage dk b (the (py_index (image e) (frame e)))]
             else image_cache w' (d, p, b) = Some e \<and>
                  draws_on dk b (out w') = draws_on dk b (out w))"
  proof (cases "next_time e \<le> of_int t")
    case True
    then have d: "due t e" using f by (simp add: due_def)
    have st: "step t e = e\<lparr>next_time := float_add (float_of_int t) (float_div 1000 (fps e)),
        frame := (frame e + 1) mod int (length (image e))\<rparr>"
      using d f by (simp add: step_def advanced_def)
    show ?thesis
      using r ok vw c' o' True d by (intro exI [of _ w']) (simp add: st)
  next
    case False
    then have d: "\<not> due t e" using f by (simp add: due_def)
    have st: "step t e = e" using d by (simp add: step_def)
    show ?thesis
      using r ok vw c' o' False d by (intro exI [of _ w']) (simp add: st)
  qed
next
  assume a: "fps e = 10 \<and> length (image e) = 5 \<and> next_time e = 0 \<and> frame e = 0 \<and>
          0 \<le> t0 \<and> t0 < 2 ^ 51"
  have c: "image_cache w (item_key (dk, (d, p, b), s)) = Some e" using assms(3) by simp
  from a have e: "fps e = 10" "length (image e) = 5" "next_time e = 0" "frame e = 0"
      "0 \<le> t0" "t0 < 2 ^ 51"
    by simp_all
  from run_anim_200 [OF assms(1,2) c e]
  show "\<exists>w'. render_thread ev (ticks t0 200) w = (Inr (), w') \<and>
               draws_on dk b (out w') =
                 draws_on dk b (out w)
                 @ map (\<lambda>j. DeckSetKeyImage dk b (image e ! (j mod 5))) [0..<20]"
    by simp
qed

text \<open>
  On the device with the five frames: the iteration at reading 0 pushes frame 20 and leaves
  the entry at index 1, due at 100; from there the iteration at reading 50 pushes nothing
  and leaves the entry as it is; 200 iterations from reading 0 push the five frames four
  times over.
\<close>

theorem animated_entry_advances_witness:
  "scan_ok ev_ok w_anim \<and>
   (11, (''A1'', 0, 4), empty_button\<lparr>icon := Some ''spin.gif''\<rparr>) \<in> set (view w_anim) \<and>
   image_cache w_anim (''A1'', 0, 4) = Some (fresh_entry (five_frames, 10)) \<and>
   (\<exists>w'. render_thread_tick ev_ok 0 w_anim = (Inr (), w') \<and>
      image_cache w' (''A1'', 0, 4) =
        Some \<lparr>image = five_frames, fps = 10, next_time = 100, frame = 1\<rparr> \<and>
      draws_on 11 4 (out w') = [DeckSetKeyImage 11 4 20]) \<and>
   (\<exists>w'. render_thread_tick ev_ok 50 w_anim_later = (Inr (), w') \<and>
      image_cache w' (''A1'', 0, 4) =
        Some \<lparr>image = five_frames, fps = 10, next_time = 100, frame = 1\<rparr> \<and>
      draws_on 11 4 (out w') = []) \<and>
   (\<exists>w'. render_thread ev_ok (ticks 0 200) w_anim = (Inr (), w') \<and>
      draws_on 11 4 (out w') =
        [DeckSetKeyImage 11 4 20, DeckSetKeyImage 11 4 21, DeckSetKeyImage 11 4 22,
         DeckSetKeyImage 11 4 23, DeckSetKeyImage 11 4 24,
         DeckSetKeyImage 11 4 20, DeckSetKeyImage 11 4 21, DeckSetKeyImage 11 4 22,
         DeckSetKeyImage 11 4 23, DeckSetKeyImage 11 4 24,
         DeckSetKeyImage 11 4 20, DeckSetKeyImage 11 4 21, DeckSetKeyImage 11 4 22,
         DeckSetKeyImage 11 4 23, DeckSetKeyImage 11 4 24,
         DeckSetKeyImage 11 4 20, DeckSetKeyImage 11 4 21, DeckSetKeyImage 11 4 22,
         DeckSetKeyImage 11 4 23, DeckSetKeyImage 11 4 24])"
proof -
  let ?s = "empty_button\<lparr>icon := Some ''spin.gif''\<rparr>"
  let ?e0 = "fresh_entry (five_frames, 10)"
  let ?e1 = "\<lparr>image = five_frames, fps = 10, next_time = 100, frame = 1\<rparr>"
  have l: "\<not> lock_held w_anim" "\<not> lock_held w_anim_later"
    by (simp_all add: w_anim_later_def w_anim_def)
  have ca: "image_cache w_anim = [(''A1'', 0, 4) \<mapsto> fresh_entry (five_frames, 10)]"
    by (simp add: w_anim_def anim_key_def)
  have ca': "image_cache w_anim_later =
      [(''A1'', 0, 4) \<mapsto> \<lparr>image = five_frames, fps = 10, next_time = 100, frame = 1\<rparr>]"
    by (simp add: w_anim_later_def anim_key_def)
  have ok: "scan_ok ev_ok w_anim"
    unfolding scan_ok_def view_ok_def view_w_anim ca
    by (simp add: l target_def entry_ok_def fresh_entry_def five_frames_def py_index_def
        ev_ok_def)
  have ok': "scan_ok ev_ok w_anim_later"
    unfolding scan_ok_def view_ok_def view_w_anim_later view_w_anim ca'
    by (simp add: l target_def entry_ok_def five_frames_def py_index_def ev_ok_def)
  have v: "(11, (''A1'', 0, 4), ?s) \<in> set (view w_anim)"
    by (simp add: view_w_anim)
  have v': "(11, (''A1'', 0, 4), ?s) \<in> set (view w_anim_later)"
    by (simp add: view_w_anim_later view_w_anim)
  have c: "image_cache w_anim (''A1'', 0, 4) = Some ?e0"
    by (simp add: w_anim_def anim_key_def)
  have c': "image_cache w_anim_later (''A1'', 0, 4) = Some ?e1"
    by (simp add: w_anim_later_def anim_key_def)
  have f: "0 < fps ?e0" "0 < fps ?e1" by (simp_all add: fresh_entry_def)
  have o: "out w_anim = []" "out w_anim_later = []"
    by (simp_all add: w_anim_def w_anim_later_def)
  have fl: "float_add (float_of_int 0) (float_div 1000 10) = 100"
    using float_due_time [of 0] by simp
  have e0: "?e0\<lparr>next_time := 100, frame := (frame ?e0 + 1) mod int (length (image ?e0))\<rparr> = ?e1"
    by (simp add: fresh_entry_def five_frames_def)
  have i0: "the (py_index (image ?e0) (frame ?e0)) = 20"
    by (simp add: fresh_entry_def five_frames_def py_index_def)
  note a = animated_entry_advances [OF ok v c f(1), of 0 0]
  note b = animated_entry_advances [OF ok' v' c' f(2), of 50 0]
  have 1: "\<exists>w'. render_thread_tick ev_ok 0 w_anim = (Inr (), w') \<and>
      image_cache w' (''A1'', 0, 4) = Some ?e1 \<and>
      draws_on 11 4 (out w') = [DeckSetKeyImage 11 4 20]"
  proof -
    from a obtain w' where "render_thread_tick ev_ok 0 w_anim = (Inr (), w')"
      "if next_time ?e0 \<le> of_int 0
       then image_cache w' (''A1'', 0, 4) =
              Some (?e0\<lparr>next_time := float_add (float_of_int 0) (float_div 1000 (fps ?e0)),
                     frame := (frame ?e0 + 1) mod int (length (image ?e0))\<rparr>) \<and>
            draws_on 11 4 (out w') =
              draws_on 11 4 (out w_anim)
              @ [DeckSetKeyImage 11 4 (the (py_index (image ?e0) (frame ?e0)))]
       else image_cache w' (''A1'', 0, 4) = Some ?e0 \<and>
            draws_on 11 4 (out w') = draws_on 11 4 (out w_anim)"
      by blast
    moreover have "next_time ?e0 \<le> of_int 0" "fps ?e0 = 10"
      by (simp_all add: fresh_entry_def)
    ultimately show ?thesis
      by (intro exI [of _ w']) (simp add: fl e0 i0 o draws_on_def)
  qed
  have 2: "\<exists>w'. render_thread_tick ev_ok 50 w_anim_later = (Inr (), w') \<and>
      image_cache w' (''A1'', 0, 4) = Some ?e1 \<and> draws_on 11 4 (out w') = []"
  proof -
    from b obtain w' where "render_thread_tick ev_ok 50 w_anim_later = (Inr (), w')"
      "if next_time ?e1 \<le> of_int 50
       then image_cache w' (''A1'', 0, 4) =
              Some (?e1\<lparr>next_time := float_add (float_of_int 50) (float_div 1000 (fps ?e1)),
                     frame := (frame ?e1 + 1) mod int (length (image ?e1))\<rparr>) \<and>
            draws_on 11 4 (out w') =
              draws_on 11 4 (out w_anim_later)
              @ [DeckSetKeyImage 11 4 (the (py_index (image ?e1) (frame ?e1)))]
       else image_cache w' (''A1'', 0, 4) = Some ?e1 \<and>
            draws_on 11 4 (out w') = draws_on 11 4 (out w_anim_later)"
      by blast
    then show ?thesis
      by (intro exI [of _ w']) (simp add: o draws_on_def)
  qed
  have 4: "map (\<lambda>j. DeckSetKeyImage 11 4 (five_frames ! (j mod 5))) [0..<20] =
     [DeckSetKeyImage 11 4 20, DeckSetKeyImage 11 4 21, DeckSetKeyImage 11 4 22,
      DeckSetKeyImage 11 4 23, DeckSetKeyImage 11 4 24,
      DeckSetKeyImage 11 4 20, DeckSetKeyImage 11 4 21, DeckSetKeyImage 11 4 22,
      DeckSetKeyImage 11 4 23, DeckSetKeyImage 11 4 24,
      DeckSetKeyImage 11 4 20, DeckSetKeyImage 11 4 21, DeckSetKeyImage 11 4 22,
      DeckSetKeyImage 11 4 23, DeckSetKeyImage 11 4 24,
      DeckSetKeyImage 11 4 20, DeckSetKeyImage 11 4 21, DeckSetKeyImage 11 4 22,
      DeckSetKeyImage 11 4 23, DeckSetKeyImage 11 4 24]"
    by code_simp
  have h: "fps ?e0 = 10 \<and> length (image ?e0) = 5 \<and> next_time ?e0 = 0 \<and> frame ?e0 = 0 \<and>
      (0::int) \<le> 0 \<and> (0::int) < 2 ^ 51"
    by (simp add: fresh_entry_def five_frames_def)
  from a h obtain w' where r: "render_thread ev_ok (ticks 0 200) w_anim = (Inr (), w')"
    and d: "draws_on 11 4 (out w') = draws_on 11 4 (out w_anim)
       @ map (\<lambda>j. DeckSetKeyImage 11 4 (image ?e0 ! (j mod 5))) [0..<20]"
    by blast
  have i: "image ?e0 = five_frames" by (simp add: fresh_entry_def)
  have d0: "draws_on 11 4 (out w_anim) = []" by (simp add: o draws_on_def)
  have 3: "\<exists>w'. render_thread ev_ok (ticks 0 200) w_anim = (Inr (), w') \<and>
      draws_on 11 4 (out w') =
        map (\<lambda>j. DeckSetKeyImage 11 4 (five_frames ! (j mod 5))) [0..<20]"
  proof -
    have "draws_on 11 4 (out w') =
        map (\<lambda>j. DeckSetKeyImage 11 4 (five_frames ! (j mod 5))) [0..<20]"
      using d unfolding i d0 by simp
    with r show ?thesis by blast
  qed
  show ?thesis
    using ok v c 1 2 3 unfolding 4 by blast
qed

subsection \<open>A render pass\<close>

text \<open>
  In a world where every key in view can be rendered, \<^verbatim>\<open>render\<close> returns, has
  pushed nothing, and leaves for every key in view an entry at frame 0 and due time 0, with
  the frames and the rate the key had, or those rendered for it when it had none.
\<close>

lemma render_item_effect:
  assumes "can_render ev (image_cache w) v"
  shows "render_item ev v w =
           (Inr (), w\<lparr>image_cache := (image_cache w)(item_key v \<mapsto>
                        fresh_entry (source ev (image_cache w) v))\<rparr>)"
proof -
  obtain dk k s where v: "v = (dk, k, s)" by (cases v)
  obtain d p b where k: "k = (d, p, b)" by (cases k)
  show ?thesis
    using assms
    by (auto simp: v k render_button_def can_render_def source_def
        split: option.splits sum.splits)
qed

lemma for_each_render:
  assumes "distinct (map item_key vs)" and "list_all (can_render ev (image_cache w)) vs"
  shows "for_each (render_item ev) vs w =
           (Inr (), w\<lparr>image_cache := render_cache ev vs (image_cache w)\<rparr>)"
  using assms
proof (induction vs arbitrary: w)
  case Nil
  then show ?case by (simp add: render_cache_def)
next
  case (Cons v vs)
  let ?c = "image_cache w"
  let ?c1 = "?c(item_key v \<mapsto> fresh_entry (source ev ?c v))"
  let ?w1 = "w\<lparr>image_cache := ?c1\<rparr>"
  have 1: "render_item ev v w = (Inr (), ?w1)"
    using Cons.prems by (intro render_item_effect) simp
  have nk: "item_key v \<notin> item_key ` set vs" using Cons.prems(1) by auto
  have same: "?c1 (item_key v') = ?c (item_key v')" if "v' \<in> set vs" for v'
  proof -
    have "item_key v' \<in> item_key ` set vs" using that by (rule imageI)
    then have "item_key v' \<noteq> item_key v" using nk by metis
    then show ?thesis by simp
  qed
  have src: "source ev ?c1 v' = source ev ?c v'" if "v' \<in> set vs" for v'
    using same [OF that] by (simp only: source_def)
  have can: "list_all (can_render ev (image_cache ?w1)) vs"
    using Cons.prems(2) same by (auto simp: list_all_iff can_render_def)
  have d': "distinct (map item_key vs)" using Cons.prems(1) by simp
  have 2: "for_each (render_item ev) vs ?w1 =
      (Inr (), ?w1\<lparr>image_cache := render_cache ev vs (image_cache ?w1)\<rparr>)"
    by (rule Cons.IH [OF d' can])
  have c: "render_cache ev vs ?c1 = render_cache ev (v # vs) ?c"
  proof
    fix k
    show "render_cache ev vs ?c1 k = render_cache ev (v # vs) ?c k"
    proof (cases "k = item_key v")
      case True
      have "\<And>v'. v' \<in> set vs \<Longrightarrow> item_key v' \<noteq> item_key v"
        using nk by (metis imageI)
      then have "find (\<lambda>v'. item_key v' = k) vs = None"
        unfolding find_None_iff True by blast
      then show ?thesis using True by (simp add: render_cache_def)
    next
      case False
      show ?thesis
      proof (cases "find (\<lambda>v'. item_key v' = k) vs")
        case None
        then show ?thesis using False by (simp add: render_cache_def)
      next
        case (Some v')
        then have "v' \<in> set vs" by (auto simp: find_Some_iff in_set_conv_nth)
        then have "source ev ?c1 v' = source ev ?c v'" by (rule src)
        then show ?thesis using False Some by (simp add: render_cache_def)
      qed
    qed
  qed
  have "for_each (render_item ev) (v # vs) w = for_each (render_item ev) vs ?w1"
    by (simp add: 1 seq_def)
  also have "\<dots> = (Inr (), w\<lparr>image_cache := render_cache ev vs ?c1\<rparr>)"
    using 2 by simp
  finally show ?case by (simp only: c)
qed

lemma render_spec:
  assumes "\<not> lock_held w" and "distinct (map item_key (view w))" and "renderable ev w"
  shows "render ev w = (Inr (), w\<lparr>image_cache := render_cache ev (view w) (image_cache w)\<rparr>)"
proof -
  let ?w = "w\<lparr>lock_held := True\<rparr>"
  have "render_decks ev (state w) ?w = for_each (render_item ev) (view w) ?w"
    unfolding view_def by (rule render_decks_view) simp_all
  also have "\<dots> = (Inr (), ?w\<lparr>image_cache := render_cache ev (view w) (image_cache ?w)\<rparr>)"
    using assms by (intro for_each_render) (simp_all add: renderable_def)
  finally have d: "render_decks ev (state w) ?w =
      (Inr (), ?w\<lparr>image_cache := render_cache ev (view w) (image_cache w)\<rparr>)"
    by simp
  have u: "w\<lparr>lock_held := False\<rparr> = w" using assms(1) by simp
  have "render ev w =
      (Inr (), w\<lparr>lock_held := False, image_cache := render_cache ev (view w) (image_cache w)\<rparr>)"
    using assms(1) by (simp add: render_def d seq_def)
  then show ?thesis by (simp only: u)
qed

lemma render_cache_key:
  assumes "distinct (map item_key vs)" and "v \<in> set vs"
  shows "render_cache ev vs c (item_key v) = Some (fresh_entry (source ev c v))"
proof -
  have "find (\<lambda>v'. item_key v' = item_key v) vs = Some v"
    using assms
  proof (induction vs)
    case Nil
    then show ?case by simp
  next
    case (Cons a vs)
    then show ?case by (cases "a = v") (auto simp: image_iff)
  qed
  then show ?thesis by (simp add: render_cache_def)
qed

lemma fresh_entry_resets:
  "fresh_entry (image e, fps e) = e\<lparr>next_time := 0, frame := 0\<rparr>"
  by (cases e) (simp add: fresh_entry_def)

lemma render_key:
  assumes "render_ok ev w"
  shows "\<exists>w1. render ev w = (Inr (), w1) \<and> scan_ok ev w1 \<and> render_ok ev w1 \<and>
           view w1 = view w \<and> out w1 = out w \<and>
           (\<forall>v. v \<in> set (view w) \<longrightarrow>
              image_cache w1 (item_key v) = Some (fresh_entry (source ev (image_cache w) v))) \<and>
           (\<forall>v e. v \<in> set (view w) \<and> image_cache w (item_key v) = Some e \<longrightarrow>
              image_cache w1 (item_key v) = Some (e\<lparr>next_time := 0, frame := 0\<rparr>))"
proof -
  let ?c = "image_cache w"
  let ?c1 = "render_cache ev (view w) ?c"
  let ?w1 = "w\<lparr>image_cache := ?c1\<rparr>"
  have vo: "view_ok ev w" and rn: "renderable ev w"
    and ne: "list_all (\<lambda>v. fst (source ev ?c v) \<noteq> []) (view w)"
    using assms by (simp_all add: render_ok_def)
  have di: "distinct (map item_key (view w))" and l: "\<not> lock_held w"
    using vo by (simp_all add: view_ok_def)
  have 1: "render ev w = (Inr (), ?w1)"
    using l di rn by (rule render_spec)
  have 2: "view ?w1 = view w" by (simp add: view_def)
  have k: "?c1 (item_key v) = Some (fresh_entry (source ev ?c v))" if "v \<in> set (view w)" for v
    using di that by (rule render_cache_key)
  have n: "fst (source ev ?c v) \<noteq> []" if "v \<in> set (view w)" for v
    using ne that by (simp add: list_all_iff)
  have vo1: "view_ok ev ?w1" using vo by (simp add: view_ok_def 2)
  have "list_all (entry_ok ?c1) (view w)"
    unfolding list_all_iff
  proof
    fix v assume v: "v \<in> set (view w)"
    show "entry_ok ?c1 v"
      using k [OF v] n [OF v] by (simp add: entry_ok_def fresh_entry_def py_index_def)
  qed
  then have 3: "scan_ok ev ?w1" using vo1 by (simp add: scan_ok_def 2)
  have "list_all (can_render ev ?c1) (view w) \<and>
        list_all (\<lambda>v. fst (source ev ?c1 v) \<noteq> []) (view w)"
    unfolding list_all_iff
  proof (intro conjI ballI)
    fix v assume v: "v \<in> set (view w)"
    show "can_render ev ?c1 v" using k [OF v] by (simp add: can_render_def)
    show "fst (source ev ?c1 v) \<noteq> []"
      using k [OF v] n [OF v] by (simp add: source_def fresh_entry_def)
  qed
  then have 4: "render_ok ev ?w1" using vo1 by (simp add: render_ok_def renderable_def 2)
  have 5: "image_cache ?w1 (item_key v) = Some (e\<lparr>next_time := 0, frame := 0\<rparr>)"
    if "v \<in> set (view w)" "?c (item_key v) = Some e" for v e
    using k [OF that(1)] that(2) by (simp add: source_def fresh_entry_resets)
  have 6: "image_cache ?w1 (item_key v) = Some (fresh_entry (source ev ?c v))"
    if "v \<in> set (view w)" for v
    using k [OF that] by simp
  have 7: "out ?w1 = out w" by simp
  show ?thesis
    using 1 2 3 4 5 6 7 by (intro exI [of _ ?w1]) blast
qed

lemma step_keeps_image: "image (step t e) = image e \<and> fps (step t e) = fps e"
  by (simp add: step_def advanced_def)

lemma scan_cache_source:
  "source ev (scan_cache t vs c) = source ev c \<and>
   can_render ev (scan_cache t vs c) = can_render ev c"
proof -
  have "source ev (scan_cache t vs c) v = source ev c v \<and>
      can_render ev (scan_cache t vs c) v = can_render ev c v" for v
    by (cases "c (item_key v)")
      (simp_all add: source_def can_render_def scan_cache_def step_keeps_image)
  then show ?thesis by (simp add: fun_eq_iff)
qed

lemma tick_render_ok:
  assumes "scan_ok ev w" and "render_ok ev w" and "render_thread_tick ev t w = (Inr (), w')"
  shows "render_ok ev w'"
proof -
  have "w' = w\<lparr>image_cache := scan_cache t (view w) (image_cache w),
               out := out w @ scan_draws t (view w) (image_cache w)\<rparr>"
    using tick_spec [OF assms(1), of t] assms(3) by simp
  moreover have "view (w\<lparr>image_cache := scan_cache t (view w) (image_cache w),
               out := out w @ scan_draws t (view w) (image_cache w)\<rparr>) = view w"
    by (simp add: view_def)
  ultimately show ?thesis
    using assms(2)
    by (simp add: render_ok_def renderable_def view_ok_def scan_cache_source)
qed

subsection \<open>Still entries\<close>

lemma run_static_later:
  assumes "scan_ok ev w" and "v \<in> set (view w)" and "image_cache w (item_key v) = Some e"
    and "fps e = 0" and "next_time e \<noteq> 0"
  shows "\<exists>w'. render_thread ev ts w = (Inr (), w') \<and> scan_ok ev w' \<and> view w' = view w \<and>
           (render_ok ev w \<longrightarrow> render_ok ev w') \<and>
           image_cache w' (item_key v) = Some e \<and>
           draws_on (handle v) (button_id v) (out w') = draws_on (handle v) (button_id v) (out w)"
  using assms(1,2,3)
proof (induction ts arbitrary: w)
  case Nil
  then show ?case by simp
next
  case (Cons t ts)
  have nd: "\<not> due t e" using assms(4,5) by (simp add: due_def)
  from tick_key [OF Cons.prems, of t] obtain w1 where
    r1: "render_thread_tick ev t w = (Inr (), w1)" and ok1: "scan_ok ev w1"
    and v1: "view w1 = view w" and c1: "image_cache w1 (item_key v) = Some e"
    and o1: "draws_on (handle v) (button_id v) (out w1) =
       draws_on (handle v) (button_id v) (out w)"
    using nd by (auto simp: step_def)
  have ro: "render_ok ev w \<longrightarrow> render_ok ev w1"
    using tick_render_ok [OF Cons.prems(1) _ r1] by blast
  have vin: "v \<in> set (view w1)" using Cons.prems(2) v1 by simp
  from Cons.IH [OF ok1 vin c1] obtain w2 where
    "render_thread ev ts w1 = (Inr (), w2)" "scan_ok ev w2" "view w2 = view w1"
    "render_ok ev w1 \<longrightarrow> render_ok ev w2" "image_cache w2 (item_key v) = Some e"
    "draws_on (handle v) (button_id v) (out w2) = draws_on (handle v) (button_id v) (out w1)"
    by blast
  then show ?case
    using r1 v1 o1 ro by (intro exI [of _ w2]) (simp add: seq_def)
qed

lemma run_static_once:
  assumes "scan_ok ev w" and "v \<in> set (view w)" and "image_cache w (item_key v) = Some e"
    and "fps e = 0" and "next_time e = 0" and "ts \<noteq> []"
  shows "\<exists>w'. render_thread ev ts w = (Inr (), w') \<and> scan_ok ev w' \<and> view w' = view w \<and>
           (render_ok ev w \<longrightarrow> render_ok ev w') \<and>
           image_cache w' (item_key v) =
             Some (e\<lparr>next_time := - 1, frame := (frame e + 1) mod int (length (image e))\<rparr>) \<and>
           draws_on (handle v) (button_id v) (out w') =
             draws_on (handle v) (button_id v) (out w)
             @ [DeckSetKeyImage (handle v) (button_id v) (the (py_index (image e) (frame e)))]"
proof -
  obtain t ts' where ts: "ts = t # ts'" using assms(6) by (cases ts) auto
  let ?e = "e\<lparr>next_time := - 1, frame := (frame e + 1) mod int (length (image e))\<rparr>"
  have d: "due t e" using assms(4,5) by (simp add: due_def)
  have s: "step t e = ?e" using d assms(4) by (simp add: step_def advanced_def)
  from tick_key [OF assms(1,2,3), of t] obtain w1 where
    r1: "render_thread_tick ev t w = (Inr (), w1)" and ok1: "scan_ok ev w1"
    and v1: "view w1 = view w" and c1: "image_cache w1 (item_key v) = Some ?e"
    and o1: "draws_on (handle v) (button_id v) (out w1) =
       draws_on (handle v) (button_id v) (out w)
       @ [DeckSetKeyImage (handle v) (button_id v) (the (py_index (image e) (frame e)))]"
    using d s by auto
  have ro: "render_ok ev w \<longrightarrow> render_ok ev w1"
    using tick_render_ok [OF assms(1) _ r1] by blast
  have vin: "v \<in> set (view w1)" using assms(2) v1 by simp
  have f: "fps ?e = 0" "next_time ?e \<noteq> 0" using assms(4) by simp_all
  from run_static_later [OF ok1 vin c1 f, of ts'] obtain w2 where
    "render_thread ev ts' w1 = (Inr (), w2)" "scan_ok ev w2" "view w2 = view w1"
    "render_ok ev w1 \<longrightarrow> render_ok ev w2" "image_cache w2 (item_key v) = Some ?e"
    "draws_on (handle v) (button_id v) (out w2) = draws_on (handle v) (button_id v) (out w1)"
    by blast
  then show ?thesis
    using r1 v1 o1 ro by (intro exI [of _ w2]) (simp add: ts seq_def)
qed

text \<open>
  C2: in a world where a render pass and the iterations that follow it run to their end,
  for every key in view, \<^verbatim>\<open>render\<close> pushes nothing and leaves the entry of the key at
  due time 0 and frame 0, with the frames and the rate it had if it had an entry. When the
  rate of that entry is 0, the first iteration of the render thread after the render pass,
  at whatever clock reading, pushes frame 0 to the key position, once, and stores the due
  time -1; after that no run of iterations, however long and at whatever readings, pushes
  to that key position again or changes the entry. The world is then again one where a
  render pass runs to its end with the key in view, so a new render pass resets the entry
  and the same holds again.
\<close>

theorem static_entry_drawn_once:
  assumes "render_ok ev w" and "(dk, (d, p, b), s) \<in> set (view w)"
  shows "\<exists>w1 e1. render ev w = (Inr (), w1) \<and> out w1 = out w \<and>
           image_cache w1 (d, p, b) = Some e1 \<and> next_time e1 = 0 \<and> frame e1 = 0 \<and>
           (\<forall>e. image_cache w (d, p, b) = Some e \<longrightarrow> image e1 = image e \<and> fps e1 = fps e) \<and>
           (fps e1 = 0 \<longrightarrow>
             (\<exists>w2. render_thread_tick ev t w1 = (Inr (), w2) \<and>
                draws_on dk b (out w2) =
                  draws_on dk b (out w) @ [DeckSetKeyImage dk b (image e1 ! 0)] \<and>
                image_cache w2 (d, p, b) =
                  Some (e1\<lparr>next_time := - 1, frame := 1 mod int (length (image e1))\<rparr>) \<and>
                render_ok ev w2 \<and> (dk, (d, p, b), s) \<in> set (view w2) \<and>
                (\<forall>ts. \<exists>w3. render_thread ev ts w2 = (Inr (), w3) \<and>
                   draws_on dk b (out w3) = draws_on dk b (out w2) \<and>
                   image_cache w3 (d, p, b) = image_cache w2 (d, p, b) \<and>
                   render_ok ev w3 \<and> (dk, (d, p, b), s) \<in> set (view w3))))"
proof -
  let ?v = "(dk, (d, p, b), s)"
  let ?e1 = "fresh_entry (source ev (image_cache w) ?v)"
  from render_key [OF assms(1)] obtain w1 where
    r: "render ev w = (Inr (), w1)" and so1: "scan_ok ev w1" and ro1: "render_ok ev w1"
    and v1: "view w1 = view w" and o1: "out w1 = out w"
    and k: "\<forall>v. v \<in> set (view w) \<longrightarrow>
        image_cache w1 (item_key v) = Some (fresh_entry (source ev (image_cache w) v))"
    by blast
  have c1: "image_cache w1 (item_key ?v) = Some ?e1"
    using k assms(2) by blast
  have ne: "image ?e1 \<noteq> []"
    using assms by (auto simp: render_ok_def list_all_iff fresh_entry_def)
  have i0: "the (py_index (image ?e1) (frame ?e1)) = image ?e1 ! 0"
    using ne by (simp add: py_index_def fresh_entry_def)
  have same: "image ?e1 = image e \<and> fps ?e1 = fps e" if "image_cache w (d, p, b) = Some e" for e
    using that by (simp add: source_def fresh_entry_def)
  have vin1: "?v \<in> set (view w1)" using assms(2) v1 by simp
  have later: "\<exists>w2. render_thread_tick ev t w1 = (Inr (), w2) \<and>
                draws_on dk b (out w2) =
                  draws_on dk b (out w) @ [DeckSetKeyImage dk b (image ?e1 ! 0)] \<and>
                image_cache w2 (d, p, b) =
                  Some (?e1\<lparr>next_time := - 1, frame := 1 mod int (length (image ?e1))\<rparr>) \<and>
                render_ok ev w2 \<and> ?v \<in> set (view w2) \<and>
                (\<forall>ts. \<exists>w3. render_thread ev ts w2 = (Inr (), w3) \<and>
                   draws_on dk b (out w3) = draws_on dk b (out w2) \<and>
                   image_cache w3 (d, p, b) = image_cache w2 (d, p, b) \<and>
                   render_ok ev w3 \<and> ?v \<in> set (view w3))"
    if f0: "fps ?e1 = 0"
  proof -
    let ?e2 = "?e1\<lparr>next_time := - 1, frame := (frame ?e1 + 1) mod int (length (image ?e1))\<rparr>"
    have nt: "next_time ?e1 = 0" by (simp add: fresh_entry_def)
    have "[t] \<noteq> []" by simp
    from run_static_once [OF so1 vin1 c1 f0 nt this] obtain w2 where
      r2: "render_thread ev [t] w1 = (Inr (), w2)" and so2: "scan_ok ev w2"
      and v2: "view w2 = view w1" and ro2: "render_ok ev w1 \<longrightarrow> render_ok ev w2"
      and c2: "image_cache w2 (item_key ?v) = Some ?e2"
      and o2: "draws_on (handle ?v) (button_id ?v) (out w2) =
         draws_on (handle ?v) (button_id ?v) (out w1)
         @ [DeckSetKeyImage (handle ?v) (button_id ?v) (the (py_index (image ?e1) (frame ?e1)))]"
      by blast
    have r2': "render_thread_tick ev t w1 = (Inr (), w2)"
      using r2 by (simp only: render_thread_single)
    have fr: "frame ?e1 = 0" by (simp add: fresh_entry_def)
    have c2': "image_cache w2 (d, p, b) =
        Some (?e1\<lparr>next_time := - 1, frame := 1 mod int (length (image ?e1))\<rparr>)"
      using c2 by (simp add: fr)
    have o2': "draws_on dk b (out w2) =
        draws_on dk b (out w) @ [DeckSetKeyImage dk b (image ?e1 ! 0)]"
      using o2 unfolding i0 o1 by simp
    have rok2: "render_ok ev w2" using ro1 ro2 by blast
    have vin2: "?v \<in> set (view w2)" using vin1 v2 by simp
    have f2: "fps ?e2 = 0" using f0 by simp
    have n2: "next_time ?e2 \<noteq> 0" by simp
    have rest: "\<exists>w3. render_thread ev ts w2 = (Inr (), w3) \<and>
                   draws_on dk b (out w3) = draws_on dk b (out w2) \<and>
                   image_cache w3 (d, p, b) = image_cache w2 (d, p, b) \<and>
                   render_ok ev w3 \<and> ?v \<in> set (view w3)" for ts
    proof -
      from run_static_later [OF so2 vin2 c2 f2 n2, of ts] obtain w3 where
        "render_thread ev ts w2 = (Inr (), w3)" "view w3 = view w2"
        "render_ok ev w2 \<longrightarrow> render_ok ev w3"
        "image_cache w3 (item_key ?v) = Some ?e2"
        "draws_on (handle ?v) (button_id ?v) (out w3) =
           draws_on (handle ?v) (button_id ?v) (out w2)"
        by blast
      then show ?thesis
        using rok2 vin2 c2 by (intro exI [of _ w3]) simp
    qed
    show ?thesis
      using r2' o2' c2' rok2 vin2 rest by (intro exI [of _ w2]) blast
  qed
  have c1': "image_cache w1 (d, p, b) = Some ?e1" using c1 by simp
  have z: "next_time ?e1 = 0 \<and> frame ?e1 = 0" by (simp add: fresh_entry_def)
  show ?thesis
    using r o1 c1' z same later by (intro exI [of _ w1] exI [of _ ?e1]) blast
qed

text \<open>
  On the device with the still icon, drawn already: a render pass resets its due time to 0,
  the iteration at reading 0 pushes frame 7, and the 199 iterations that follow push nothing.
\<close>

theorem static_entry_drawn_once_witness:
  "render_ok ev_ok w_still \<and>
   (11, (''A1'', 0, 4), empty_button\<lparr>icon := Some ''spin.gif''\<rparr>) \<in> set (view w_still) \<and>
   image_cache w_still (''A1'', 0, 4) =
     Some \<lparr>image = [7], fps = 0, next_time = - 1, frame = 0\<rparr> \<and>
   (\<exists>w1 w2. render ev_ok w_still = (Inr (), w1) \<and> out w1 = [] \<and>
      image_cache w1 (''A1'', 0, 4) = Some \<lparr>image = [7], fps = 0, next_time = 0, frame = 0\<rparr> \<and>
      render_thread_tick ev_ok 0 w1 = (Inr (), w2) \<and>
      draws_on 11 4 (out w2) = [DeckSetKeyImage 11 4 7] \<and>
      image_cache w2 (''A1'', 0, 4) =
        Some \<lparr>image = [7], fps = 0, next_time = - 1, frame = 0\<rparr> \<and>
      (\<exists>w3. render_thread ev_ok (ticks 10 199) w2 = (Inr (), w3) \<and>
         draws_on 11 4 (out w3) = [DeckSetKeyImage 11 4 7]))"
proof -
  let ?s = "empty_button\<lparr>icon := Some ''spin.gif''\<rparr>"
  let ?e = "\<lparr>image = [7], fps = 0, next_time = - 1, frame = 0\<rparr> :: cache_entry"
  have vw: "view w_still = view w_anim" by (simp add: view_def w_still_def)
  have l: "\<not> lock_held w_still" by (simp add: w_still_def w_anim_def)
  have ca: "image_cache w_still = [(''A1'', 0, 4) \<mapsto> ?e]"
    by (simp add: w_still_def anim_key_def)
  have o: "out w_still = []" by (simp add: w_still_def w_anim_def)
  have ok: "render_ok ev_ok w_still"
    unfolding render_ok_def view_ok_def renderable_def vw view_w_anim ca
    by (simp add: l target_def can_render_def source_def ev_ok_def)
  have v: "(11, (''A1'', 0, 4), ?s) \<in> set (view w_still)"
    by (simp add: vw view_w_anim)
  have c: "image_cache w_still (''A1'', 0, 4) = Some ?e" by (simp add: ca)
  from static_entry_drawn_once [OF ok v, of 0] obtain w1 e1 where
    r: "render ev_ok w_still = (Inr (), w1)" and o1: "out w1 = out w_still"
    and c1: "image_cache w1 (''A1'', 0, 4) = Some e1"
    and z: "next_time e1 = 0" "frame e1 = 0"
    and same: "\<forall>e. image_cache w_still (''A1'', 0, 4) = Some e \<longrightarrow>
        image e1 = image e \<and> fps e1 = fps e"
    and rest: "fps e1 = 0 \<longrightarrow>
       (\<exists>w2. render_thread_tick ev_ok 0 w1 = (Inr (), w2) \<and>
          draws_on 11 4 (out w2) =
            draws_on 11 4 (out w_still) @ [DeckSetKeyImage 11 4 (image e1 ! 0)] \<and>
          image_cache w2 (''A1'', 0, 4) =
            Some (e1\<lparr>next_time := - 1, frame := 1 mod int (length (image e1))\<rparr>) \<and>
          render_ok ev_ok w2 \<and> (11, (''A1'', 0, 4), ?s) \<in> set (view w2) \<and>
          (\<forall>ts. \<exists>w3. render_thread ev_ok ts w2 = (Inr (), w3) \<and>
             draws_on 11 4 (out w3) = draws_on 11 4 (out w2) \<and>
             image_cache w3 (''A1'', 0, 4) = image_cache w2 (''A1'', 0, 4) \<and>
             render_ok ev_ok w3 \<and> (11, (''A1'', 0, 4), ?s) \<in> set (view w3)))"
    by blast
  have i: "image e1 = [7]" and f: "fps e1 = 0" using same c by simp_all
  have e1: "e1 = \<lparr>image = [7], fps = 0, next_time = 0, frame = 0\<rparr>"
    using i f z by (cases e1) simp
  from rest f obtain w2 where
    r2: "render_thread_tick ev_ok 0 w1 = (Inr (), w2)"
    and o2: "draws_on 11 4 (out w2) =
            draws_on 11 4 (out w_still) @ [DeckSetKeyImage 11 4 (image e1 ! 0)]"
    and c2: "image_cache w2 (''A1'', 0, 4) =
            Some (e1\<lparr>next_time := - 1, frame := 1 mod int (length (image e1))\<rparr>)"
    and later: "\<forall>ts. \<exists>w3. render_thread ev_ok ts w2 = (Inr (), w3) \<and>
             draws_on 11 4 (out w3) = draws_on 11 4 (out w2) \<and>
             image_cache w3 (''A1'', 0, 4) = image_cache w2 (''A1'', 0, 4) \<and>
             render_ok ev_ok w3 \<and> (11, (''A1'', 0, 4), ?s) \<in> set (view w3)"
    by blast
  have o2': "draws_on 11 4 (out w2) = [DeckSetKeyImage 11 4 7]"
    using o2 by (simp add: o e1 draws_on_def)
  have c2': "image_cache w2 (''A1'', 0, 4) = Some ?e"
    using c2 by (simp add: e1)
  from later obtain w3 where
    "render_thread ev_ok (ticks 10 199) w2 = (Inr (), w3)"
    "draws_on 11 4 (out w3) = draws_on 11 4 (out w2)"
    by blast
  then have 3: "\<exists>w3. render_thread ev_ok (ticks 10 199) w2 = (Inr (), w3) \<and>
         draws_on 11 4 (out w3) = [DeckSetKeyImage 11 4 7]"
    using o2' by simp
  have o1': "out w1 = []" using o1 o by simp
  have c1': "image_cache w1 (''A1'', 0, 4) =
      Some \<lparr>image = [7], fps = 0, next_time = 0, frame = 0\<rparr>"
    using c1 e1 by simp
  show ?thesis
    using ok v c r o1' c1' r2 o2' c2' 3 by blast
qed

subsection \<open>Setters and the image cache\<close>

text \<open>
  The setters of command, keys, write and switch page write the field and save: they leave
  the image cache as it is. \<^verbatim>\<open>set_button_change_brightness\<close> also runs
  \<^verbatim>\<open>render\<close> (line 178): the cache it leaves is the one of a render pass.
\<close>

lemma plain_setters_keep_cache:
  "image_cache (snd (set_button_command ev d p b v w)) = image_cache w \<and>
   image_cache (snd (set_button_keys ev d p b v w)) = image_cache w \<and>
   image_cache (snd (set_button_write ev d p b v w)) = image_cache w \<and>
   image_cache (snd (set_button_switch_page ev d p b n w)) = image_cache w"
  by (simp add: set_button_command_def set_button_keys_def set_button_write_def
      set_button_switch_page_def save_state_frame)

lemma brightness_change_setter_is_a_render:
  "image_cache (snd (set_button_change_brightness ev d p b n w)) =
     image_cache (snd (render ev
       (w\<lparr>state := button_state_upd d p b (\<lambda>b. b\<lparr>brightness_change := Some n\<rparr>) (state w)\<rparr>)))"
proof -
  let ?w = "w\<lparr>state := button_state_upd d p b (\<lambda>b. b\<lparr>brightness_change := Some n\<rparr>) (state w)\<rparr>"
  obtain r w1 where r: "render ev ?w = (r, w1)" by (cases "render ev ?w")
  show ?thesis
    by (cases r) (simp_all add: set_button_change_brightness_def r seq_def save_state_frame)
qed

text \<open>
  \<^verbatim>\<open>set_button_text\<close> and \<^verbatim>\<open>set_button_icon\<close> pop the entry of the key and
  then run \<^verbatim>\<open>render\<close>, which renders the key anew when it is in view.
\<close>

lemma text_and_icon_setters_pop_and_render:
  "image_cache (snd (set_button_text ev d p b v w)) =
     image_cache (snd (render ev
       (w\<lparr>state := button_state_upd d p b (\<lambda>b. b\<lparr>text' := Some v\<rparr>) (state w),
          image_cache := (image_cache w)((d, p, b) := None)\<rparr>))) \<and>
   image_cache (snd (set_button_icon ev d p b v w)) =
     image_cache (snd (render ev
       (w\<lparr>state := button_state_upd d p b (\<lambda>b. b\<lparr>icon := Some v\<rparr>) (state w),
          image_cache := (image_cache w)((d, p, b) := None)\<rparr>)))"
proof -
  let ?wt = "w\<lparr>state := button_state_upd d p b (\<lambda>b. b\<lparr>text' := Some v\<rparr>) (state w),
          image_cache := (image_cache w)((d, p, b) := None)\<rparr>"
  let ?wi = "w\<lparr>state := button_state_upd d p b (\<lambda>b. b\<lparr>icon := Some v\<rparr>) (state w),
          image_cache := (image_cache w)((d, p, b) := None)\<rparr>"
  obtain rt wt where rt: "render ev ?wt = (rt, wt)" by (cases "render ev ?wt")
  obtain ri wi where ri: "render ev ?wi = (ri, wi)" by (cases "render ev ?wi")
  have 1: "image_cache (snd (set_button_text ev d p b v w)) = image_cache wt"
    by (cases rt) (simp_all add: set_button_text_def rt seq_def save_state_frame)
  have 2: "image_cache (snd (set_button_icon ev d p b v w)) = image_cache wi"
    by (cases ri) (simp_all add: set_button_icon_def ri seq_def save_state_frame)
  show ?thesis using 1 2 by (simp add: rt ri)
qed

text \<open>
  C3, for the brightness change the code does not do what the claim says. With device A1
  attached, showing page 0, and an empty image cache,
  \<^verbatim>\<open>set_button_change_brightness('A1', 0, 3, 5)\<close> returns and leaves an entry for key 3
  in the cache, the one its render pass has made: the set of entries is not what it was.
  On the same world the setters of command, keys, write and switch page leave the cache
  empty.
\<close>

theorem brightness_change_setter_adds_entry:
  "image_cache (w_bright 50) = Map.empty \<and>
   fst (set_button_change_brightness ev_ok ''A1'' 0 3 5 (w_bright 50)) = Inr () \<and>
   image_cache (snd (set_button_change_brightness ev_ok ''A1'' 0 3 5 (w_bright 50))) =
     [(''A1'', 0, 3) \<mapsto> \<lparr>image = [7], fps = 0, next_time = 0, frame = 0\<rparr>] \<and>
   image_cache (snd (set_button_command ev_ok ''A1'' 0 3 ''ls'' (w_bright 50))) = Map.empty \<and>
   image_cache (snd (set_button_keys ev_ok ''A1'' 0 3 ''a'' (w_bright 50))) = Map.empty \<and>
   image_cache (snd (set_button_write ev_ok ''A1'' 0 3 ''hi'' (w_bright 50))) = Map.empty \<and>
   image_cache (snd (set_button_switch_page ev_ok ''A1'' 0 3 2 (w_bright 50))) = Map.empty"
  by (simp add: set_button_change_brightness_def set_button_command_def set_button_keys_def
      set_button_write_def set_button_switch_page_def eval_defs w_bright_def ev_ok_def)

subsection \<open>A press on which no action raises\<close>



















end
